theory Spec2Isabelle
  imports Main "HOL-Library.AList"
begin

section \<open>Data model of \<^verbatim>\<open>scheduler/denormalise.py\<close>\<close>

text \<open>
  Python dictionaries keep their keys distinct and in insertion order; assigning to a key that
  is present replaces its value where it stands, assigning to a new key appends it. They are
  association lists here, written to with \<^const>\<open>AList.update\<close> and read with
  \<^const>\<open>map_of\<close>. Python integers are unbounded: \<^typ>\<open>int\<close>.
\<close>

type_synonym ('k, 'v) dict = "('k \<times> 'v) list"

text \<open>An entry of \<^verbatim>\<open>events_definition\<close>: a dict with the keys title, duration,
  tags, person and event_type.\<close>

record event_def =
  title :: string
  duration :: int
  tags :: "string list"
  person :: string
  event_type :: string

text \<open>\<^verbatim>\<open>conference_scheduler.resources.Event\<close>, with the attributes that
  \<^verbatim>\<open>Event(title, duration, demand=None, tags=tags)\<close> sets.\<close>

record Event =
  name :: string
  event_duration :: int
  demand :: "int option"
  event_tags :: "string list"

text \<open>\<^verbatim>\<open>list.index\<close>: the position of the first element equal to \<open>x\<close>. Python
  raises ValueError when there is none; every call in the source looks up an element that the
  enclosing loop has just drawn from the same list, so the model returns the length there and
  \<open>index_less\<close> below shows the case is never reached by those calls.\<close>

fun index :: "'a list \<Rightarrow> 'a \<Rightarrow> nat" where
  "index [] x = 0"
| "index (y # ys) x = (if y = x then 0 else Suc (index ys x))"

subsection \<open>EventBuilder: \<^verbatim>\<open>types_and_events\<close>\<close>

text \<open>Each output item is the dict \<^verbatim>\<open>{'event_type': ..., 'event': Event(...)}\<close>, a pair
  here.\<close>

definition types_and_events :: "event_def list \<Rightarrow> (string \<times> Event) list" where
  "types_and_events events_definition =
     map (\<lambda>event. (event_type event,
            \<lparr>name = title event, event_duration = duration event, demand = None,
             event_tags = tags event\<rparr>))
       events_definition"

subsection \<open>UnsuitabilityResolver: \<^verbatim>\<open>unsuitability\<close>\<close>

text \<open>The list comprehension over \<^verbatim>\<open>enumerate(types_and_slots)\<close>; only the
  \<^verbatim>\<open>'event_type'\<close> of an item is read, so the slot type is left open.\<close>

definition unsuitable_slots :: "(string \<times> 'slot) list \<Rightarrow> event_def \<Rightarrow> nat list" where
  "unsuitable_slots types_and_slots event =
     map fst (filter (\<lambda>(i, dictionary). fst dictionary \<noteq> event_type event)
                (enumerate 0 types_and_slots))"

definition unsuitability ::
  "(string \<times> 'slot) list \<Rightarrow> event_def list \<Rightarrow> (nat, nat list) dict" where
  "unsuitability types_and_slots events_definition =
     fold (\<lambda>event output.
             AList.update (index events_definition event)
               (unsuitable_slots types_and_slots event) output)
       events_definition []"

subsection \<open>ClashResolver: \<^verbatim>\<open>clashes\<close>\<close>

text \<open>
  \<^verbatim>\<open>clashes_definition\<close> maps a person to the list of the people to avoid. The function
  writes to the mapping it is given, so the model returns the caller's mapping as it is after
  the call beside the returned pair. The lists are values here: each person's list is an
  object of its own, as it is when the mapping is read from a file without shared references.

  First loop: everyone who owns an event and has no entry is given the entry
  \<^verbatim>\<open>[person]\<close>.
\<close>

definition add_missing_people ::
  "string list \<Rightarrow> (string, string list) dict \<Rightarrow> (string, string list) dict" where
  "add_missing_people people clashes_definition =
     fold (\<lambda>p cd. if p \<notin> set (map fst cd) then AList.update p [p] cd else cd)
       people clashes_definition"

text \<open>Second loop, with its counter: over the items of the mapping, appending the person to a
  list that lacks it. An item's list is changed only when the loop reaches that item, so the
  list it sees there is the one the mapping held when the loop began.\<close>

fun add_self_clash ::
  "string \<times> string list \<Rightarrow> (string, string list) dict \<times> nat \<Rightarrow>
     (string, string list) dict \<times> nat" where
  "add_self_clash (p, clashing_people) (cd, count) =
     (if p \<notin> set clashing_people
      then (AList.update p (clashing_people @ [p]) cd, count + 1)
      else (cd, count))"

definition add_self_clashes ::
  "(string, string list) dict \<Rightarrow> (string, string list) dict \<times> nat" where
  "add_self_clashes clashes_definition =
     fold add_self_clash clashes_definition (clashes_definition, 0)"

text \<open>A dict comprehension assigns its items in order; a later item with a key already
  present replaces the value.\<close>

definition dict_comprehension :: "('k \<times> 'v) list \<Rightarrow> ('k, 'v) dict" where
  "dict_comprehension items = fold (\<lambda>(k, v) d. AList.update k v d) items []"

text \<open>The inner list comprehension of \<^verbatim>\<open>clashes\<close>.\<close>

definition clashing_events :: "event_def list \<Rightarrow> string list \<Rightarrow> event_def \<Rightarrow> nat list" where
  "clashing_events events_definition clashing_people event =
     [index events_definition t.
        c \<leftarrow> clashing_people, t \<leftarrow> events_definition,
        person t = c \<and> index events_definition event \<noteq> index events_definition t]"

text \<open>The result is the returned pair \<^verbatim>\<open>(clashes, count)\<close> and, beside it, the
  caller's \<^verbatim>\<open>clashes_definition\<close> after the call.\<close>

definition clashes ::
  "event_def list \<Rightarrow> (string, string list) dict \<Rightarrow>
     ((nat, nat list) dict \<times> nat) \<times> (string, string list) dict" where
  "clashes events_definition clashes_definition =
     (let cd1 = add_missing_people (map person events_definition) clashes_definition;
          (cd2, count) = add_self_clashes cd1;
          clashes_dict = dict_comprehension
            [(index events_definition event,
              clashing_events events_definition clashing_people event).
               (p, clashing_people) \<leftarrow> cd2, event \<leftarrow> events_definition, person event = p]
      in ((clashes_dict, count), cd2))"

text \<open>For stating what the normalisation does to one entry of the mapping: the entry with
  its own key appended to its list when the list lacks it.\<close>

definition self_clash :: "string \<times> string list \<Rightarrow> string \<times> string list" where
  "self_clash item =
     (fst item, if fst item \<in> set (snd item) then snd item else snd item @ [fst item])"

subsection \<open>Dates and times of the \<^verbatim>\<open>datetime\<close> module\<close>

text \<open>What a call can raise.\<close>

datatype error = ValueError | OverflowError

text \<open>
  \<^verbatim>\<open>datetime.date\<close> holds a year, a month and a day of the proleptic Gregorian
  calendar, with the year between 1 and 9999; \<^verbatim>\<open>datetime.datetime\<close> adds the time of
  day. The values are naive (no time zone), as the ones a YAML file gives.
\<close>

record date =
  year :: nat
  month :: nat
  day :: nat

record datetime = date +
  hour :: nat
  minute :: nat
  second :: nat
  microsecond :: nat

definition is_leap :: "nat \<Rightarrow> bool" where
  "is_leap y \<longleftrightarrow> y mod 4 = 0 \<and> (y mod 100 \<noteq> 0 \<or> y mod 400 = 0)"

definition days_in_month :: "nat \<Rightarrow> nat \<Rightarrow> nat" where
  "days_in_month y m =
     (if m = 2 then (if is_leap y then 29 else 28)
      else if m = 4 \<or> m = 6 \<or> m = 9 \<or> m = 11 then 30 else 31)"

text \<open>The values the two classes admit.\<close>

definition valid_date :: "'a date_scheme \<Rightarrow> bool" where
  "valid_date d \<longleftrightarrow>
     1 \<le> year d \<and> year d \<le> 9999 \<and> 1 \<le> month d \<and> month d \<le> 12 \<and>
     1 \<le> day d \<and> day d \<le> days_in_month (year d) (month d)"

definition valid_datetime :: "datetime \<Rightarrow> bool" where
  "valid_datetime dt \<longleftrightarrow>
     valid_date dt \<and> hour dt < 24 \<and> minute dt < 60 \<and> second dt < 60 \<and>
     microsecond dt < 1000000"

text \<open>The day after and the day before. Below the first of January of year 1 the year is 0
  and stays 0, which \<open>add_seconds\<close> reports as out of range.\<close>

definition next_day :: "'a date_scheme \<Rightarrow> 'a date_scheme" where
  "next_day d =
     (if day d < days_in_month (year d) (month d) then d\<lparr>day := day d + 1\<rparr>
      else if month d < 12 then d\<lparr>month := month d + 1, day := 1\<rparr>
      else d\<lparr>year := year d + 1, month := 1, day := 1\<rparr>)"

definition prev_day :: "'a date_scheme \<Rightarrow> 'a date_scheme" where
  "prev_day d =
     (if 1 < day d then d\<lparr>day := day d - 1\<rparr>
      else if 1 < month d
        then d\<lparr>month := month d - 1, day := days_in_month (year d) (month d - 1)\<rparr>
      else d\<lparr>year := year d - 1, month := 12, day := 31\<rparr>)"

text \<open>\<^verbatim>\<open>datetime.combine(day, datetime.min.time())\<close>: midnight of the day.\<close>

definition combine :: "date \<Rightarrow> datetime" where
  "combine d = \<lparr>year = year d, month = month d, day = day d,
                hour = 0, minute = 0, second = 0, microsecond = 0\<rparr>"

text \<open>
  \<^verbatim>\<open>dt + timedelta(seconds=n)\<close> for an integer \<open>n\<close> of either sign: the seconds are
  added to the time of day, whole days are carried into the date, and a result outside the
  years 1 to 9999 raises OverflowError.
\<close>

definition add_seconds :: "datetime \<Rightarrow> int \<Rightarrow> error + datetime" where
  "add_seconds dt n =
     (let total = int (hour dt * 3600 + minute dt * 60 + second dt) + n;
          days = total div 86400;
          secs = nat (total mod 86400);
          d = (if 0 \<le> days then (next_day ^^ nat days) dt else (prev_day ^^ nat (- days)) dt)
      in if 1 \<le> year d \<and> year d \<le> 9999
         then Inr (d\<lparr>hour := secs div 3600, minute := secs mod 3600 div 60,
                     second := secs mod 60\<rparr>)
         else Inl OverflowError)"

text \<open>Comparison of naive datetimes is the comparison of their fields in order, as tuples.\<close>

fun lex_le :: "nat list \<Rightarrow> nat list \<Rightarrow> bool" where
  "lex_le [] ys = True"
| "lex_le (x # xs) [] = False"
| "lex_le (x # xs) (y # ys) = (x < y \<or> (x = y \<and> lex_le xs ys))"

definition datetime_le :: "datetime \<Rightarrow> datetime \<Rightarrow> bool" where
  "datetime_le a b =
     lex_le [year a, month a, day a, hour a, minute a, second a, microsecond a]
            [year b, month b, day b, hour b, minute b, second b, microsecond b]"

subsection \<open>Formatting: \<^verbatim>\<open>strftime('%d-%b-%Y %H:%M')\<close> and \<^verbatim>\<open>str(day)\<close>\<close>

definition digit :: "nat \<Rightarrow> char" where
  "digit n = ''0123456789'' ! n"

definition pad2 :: "nat \<Rightarrow> string" where
  "pad2 n = [digit (n div 10 mod 10), digit (n mod 10)]"

definition pad4 :: "nat \<Rightarrow> string" where
  "pad4 n = [digit (n div 1000 mod 10), digit (n div 100 mod 10), digit (n div 10 mod 10),
             digit (n mod 10)]"

text \<open>A number in decimal, with no padding.\<close>

fun decimal :: "nat \<Rightarrow> string" where
  "decimal n = (if n < 10 then [digit n] else decimal (n div 10) @ [digit (n mod 10)])"

declare decimal.simps [simp del]

text \<open>The abbreviated month names of the C locale.\<close>

definition month_abbr :: "nat \<Rightarrow> string" where
  "month_abbr m =
     [''Jan'', ''Feb'', ''Mar'', ''Apr'', ''May'', ''Jun'',
      ''Jul'', ''Aug'', ''Sep'', ''Oct'', ''Nov'', ''Dec''] ! (m - 1)"

text \<open>
  \<^verbatim>\<open>%d\<close>, \<^verbatim>\<open>%H\<close> and \<^verbatim>\<open>%M\<close> are two digits. \<^verbatim>\<open>%Y\<close> is
  the year in decimal as the C library writes it: CPython hands the format to the platform's
  \<^verbatim>\<open>strftime\<close>, and glibc does not pad the year, so a year below 1000 has fewer than
  four digits.
\<close>

definition strftime :: "datetime \<Rightarrow> string" where
  "strftime dt =
     pad2 (day dt) @ ''-'' @ month_abbr (month dt) @ ''-'' @ decimal (year dt) @ '' '' @
     pad2 (hour dt) @ '':'' @ pad2 (minute dt)"

text \<open>\<^verbatim>\<open>str(day)\<close> of a date, as the f-string formats it: ISO format, which pads the
  year to four digits itself.\<close>

definition isoformat :: "date \<Rightarrow> string" where
  "isoformat d = pad4 (year d) @ ''-'' @ pad2 (month d) @ ''-'' @ pad2 (day d)"

subsection \<open>Parsing: \<^verbatim>\<open>datetime.strptime(s, '%d-%b-%Y %H:%M')\<close>\<close>

text \<open>
  \<^verbatim>\<open>strptime\<close> turns the format into a regular expression, matches it at the start of
  the string with backtracking and without regard to case, and refuses a match that leaves
  text over. Each piece of the expression is a function from the text to the list of the ways
  it can match, in the order in which the matcher tries them, each with the text left over.
  Characters are bytes: the digits are \<open>0\<close> to \<open>9\<close>.
\<close>

definition is_digit :: "char \<Rightarrow> bool" where
  "is_digit c \<longleftrightarrow> 48 \<le> (of_char c :: nat) \<and> (of_char c :: nat) \<le> 57"

definition digit_val :: "char \<Rightarrow> nat" where
  "digit_val c = of_char c - 48"

text \<open>White space as \<^verbatim>\<open>\s\<close> sees it.\<close>

definition is_space :: "char \<Rightarrow> bool" where
  "is_space c \<longleftrightarrow> (of_char c :: nat) \<in> {9, 10, 11, 12, 13, 28, 29, 30, 31, 32, 133, 160}"

definition to_lower :: "char \<Rightarrow> char" where
  "to_lower c =
     (case map_of (zip ''ABCDEFGHIJKLMNOPQRSTUVWXYZ'' ''abcdefghijklmnopqrstuvwxyz'') c of
        Some l \<Rightarrow> l
      | None \<Rightarrow> c)"

definition two_digits :: "(nat \<Rightarrow> nat \<Rightarrow> bool) \<Rightarrow> string \<Rightarrow> (nat \<times> string) list" where
  "two_digits P s =
     (case s of
        a # b # r \<Rightarrow>
          if is_digit a \<and> is_digit b \<and> P (digit_val a) (digit_val b)
          then [(10 * digit_val a + digit_val b, r)] else []
      | _ \<Rightarrow> [])"

definition one_digit :: "(nat \<Rightarrow> bool) \<Rightarrow> string \<Rightarrow> (nat \<times> string) list" where
  "one_digit P s =
     (case s of
        a # r \<Rightarrow> if is_digit a \<and> P (digit_val a) then [(digit_val a, r)] else []
      | _ \<Rightarrow> [])"

definition lit :: "char \<Rightarrow> string \<Rightarrow> string list" where
  "lit c s = (case s of x # r \<Rightarrow> if x = c then [r] else [] | [] \<Rightarrow> [])"

text \<open>\<^verbatim>\<open>%d\<close> is \<^verbatim>\<open>3[0-1]|[1-2]\d|0[1-9]|[1-9]| [1-9]\<close>.\<close>

definition re_d :: "string \<Rightarrow> (nat \<times> string) list" where
  "re_d s =
     two_digits (\<lambda>a b. a = 3 \<and> b \<le> 1) s @
     two_digits (\<lambda>a b. 1 \<le> a \<and> a \<le> 2) s @
     two_digits (\<lambda>a b. a = 0 \<and> 1 \<le> b) s @
     one_digit (\<lambda>a. 1 \<le> a) s @
     concat (map (one_digit (\<lambda>a. 1 \<le> a)) (lit CHR '' '' s))"

text \<open>\<^verbatim>\<open>%b\<close> is \<^verbatim>\<open>jan|feb|...|dec\<close>, the lower-case month names of the locale; the
  month is the position of the lower-cased match in that list.\<close>

definition a_month :: "string list" where
  "a_month = ['''', ''jan'', ''feb'', ''mar'', ''apr'', ''may'', ''jun'',
              ''jul'', ''aug'', ''sep'', ''oct'', ''nov'', ''dec'']"

definition re_b :: "string \<Rightarrow> (nat \<times> string) list" where
  "re_b s =
     [(m, drop 3 s).
        m \<leftarrow> [1, 2, 3, 4, 5, 6, 7, 8, 9, 10, 11, 12],
        3 \<le> length s \<and> map to_lower (take 3 s) = a_month ! m]"

text \<open>\<^verbatim>\<open>%Y\<close> is \<^verbatim>\<open>\d\d\d\d\<close>.\<close>

definition re_Y :: "string \<Rightarrow> (nat \<times> string) list" where
  "re_Y s =
     (case s of
        a # b # c # d # r \<Rightarrow>
          if is_digit a \<and> is_digit b \<and> is_digit c \<and> is_digit d
          then [(1000 * digit_val a + 100 * digit_val b + 10 * digit_val c + digit_val d, r)]
          else []
      | _ \<Rightarrow> [])"

text \<open>The blank of the format is \<^verbatim>\<open>\s+\<close>: one or more white-space characters, the
  longest run first.\<close>

definition re_space :: "string \<Rightarrow> string list" where
  "re_space s = map (\<lambda>k. drop k s) (rev [1..<Suc (length (takeWhile is_space s))])"

text \<open>\<^verbatim>\<open>%H\<close> is \<^verbatim>\<open>2[0-3]|[0-1]\d|\d\<close> and \<^verbatim>\<open>%M\<close> is \<^verbatim>\<open>[0-5]\d|\d\<close>.\<close>

definition re_H :: "string \<Rightarrow> (nat \<times> string) list" where
  "re_H s =
     two_digits (\<lambda>a b. a = 2 \<and> b \<le> 3) s @ two_digits (\<lambda>a b. a \<le> 1) s @
     one_digit (\<lambda>a. True) s"

definition re_M :: "string \<Rightarrow> (nat \<times> string) list" where
  "re_M s = two_digits (\<lambda>a b. a \<le> 5) s @ one_digit (\<lambda>a. True) s"

text \<open>The matches of the whole expression, the one the matcher returns first.\<close>

definition strptime_matches :: "string \<Rightarrow> ((nat \<times> nat \<times> nat \<times> nat \<times> nat) \<times> string) list" where
  "strptime_matches s =
     [((d, b, y, h, m), r9).
        (d, r1) \<leftarrow> re_d s, r2 \<leftarrow> lit CHR ''-'' r1,
        (b, r3) \<leftarrow> re_b r2, r4 \<leftarrow> lit CHR ''-'' r3,
        (y, r5) \<leftarrow> re_Y r4, r6 \<leftarrow> re_space r5,
        (h, r7) \<leftarrow> re_H r6, r8 \<leftarrow> lit CHR '':'' r7,
        (m, r9) \<leftarrow> re_M r8]"

text \<open>
  \<^verbatim>\<open>to_datetime\<close>, the local function of \<^verbatim>\<open>unavailability\<close>. ValueError is raised
  when the text does not match the format, when text is left after the match, and when the
  fields are not a date (year 0, or a day the month does not have).
\<close>

definition to_datetime :: "string \<Rightarrow> error + datetime" where
  "to_datetime datetime_as_string =
     (case strptime_matches datetime_as_string of
        [] \<Rightarrow> Inl ValueError
      | ((d, b, y, h, m), rest) # _ \<Rightarrow>
          if rest \<noteq> [] then Inl ValueError
          else if 1 \<le> y \<and> d \<le> days_in_month y b
          then Inr \<lparr>year = y, month = b, day = d, hour = h, minute = m, second = 0,
                    microsecond = 0\<rparr>
          else Inl ValueError)"

subsection \<open>SlotBuilder: \<^verbatim>\<open>types_and_slots\<close>\<close>

text \<open>A slot specification of the venue definitions: a dict with the keys event_type,
  starts_at (seconds after midnight), duration (minutes) and capacity.\<close>

record slot_spec =
  spec_event_type :: string
  spec_starts_at :: int
  spec_duration :: int
  spec_capacity :: int

text \<open>\<^verbatim>\<open>conference_scheduler.resources.Slot\<close>, a named tuple: two slots are equal when
  all their fields are.\<close>

record Slot =
  venue :: string
  starts_at :: string
  slot_duration :: int
  capacity :: int
  session :: string

text \<open>The first error of a list of results, or all their values: a comprehension whose
  items can raise.\<close>

fun sequence :: "(error + 'a) list \<Rightarrow> error + 'a list" where
  "sequence [] = Inr []"
| "sequence (x # xs) =
     (case x of
        Inl e \<Rightarrow> Inl e
      | Inr v \<Rightarrow> (case sequence xs of Inl e \<Rightarrow> Inl e | Inr vs \<Rightarrow> Inr (v # vs)))"

text \<open>The \<^verbatim>\<open>starts_at\<close> argument of \<^verbatim>\<open>Slot(...)\<close>: midnight of the day plus the
  offset, formatted.\<close>

definition absolute_start :: "date \<Rightarrow> int \<Rightarrow> error + string" where
  "absolute_start d offset =
     (case add_seconds (combine d) offset of
        Inl e \<Rightarrow> Inl e
      | Inr dt \<Rightarrow> Inr (strftime dt))"

text \<open>One item of the comprehension: the dict
  \<^verbatim>\<open>{'event_type': slot['event_type'], 'slot': Slot(...)}\<close>, a pair here.\<close>

definition make_slot :: "string \<Rightarrow> date \<Rightarrow> string \<Rightarrow> slot_spec \<Rightarrow> error + string \<times> Slot" where
  "make_slot v d s slot =
     (case absolute_start d (spec_starts_at slot) of
        Inl e \<Rightarrow> Inl e
      | Inr start \<Rightarrow>
          Inr (spec_event_type slot,
               \<lparr>venue = v, starts_at = start, slot_duration = spec_duration slot,
                capacity = spec_capacity slot, session = isoformat d @ '' '' @ s\<rparr>))"

type_synonym venues = "(string, (date, (string, slot_spec list) dict) dict) dict"

definition types_and_slots :: "venues \<Rightarrow> error + (string \<times> Slot) list" where
  "types_and_slots venues =
     sequence
       [make_slot v d s slot.
          (v, days) \<leftarrow> venues, (d, sessions) \<leftarrow> days, (s, slots) \<leftarrow> sessions,
          slot \<leftarrow> slots]"

text \<open>For stating the order of the output: the slot specifications of the venue definitions
  with their venue, day and session, in the order venue, day, session, slot.\<close>

definition slot_specifications :: "venues \<Rightarrow> (string \<times> date \<times> string \<times> slot_spec) list" where
  "slot_specifications venues =
     [(v, d, s, slot).
        (v, days) \<leftarrow> venues, (d, sessions) \<leftarrow> days, (s, slots) \<leftarrow> sessions,
        slot \<leftarrow> slots]"

subsection \<open>UnavailabilityResolver: \<^verbatim>\<open>unavailability\<close>\<close>

text \<open>A period of the unavailability definitions: a dict with the keys unavailable_from and
  unavailable_until, both datetimes.\<close>

record period =
  unavailable_from :: datetime
  unavailable_until :: datetime

text \<open>
  The condition of the list comprehension. \<^verbatim>\<open>and\<close> evaluates its second operand only
  when the first is true, so the end of the slot is computed, and can overflow, only for a
  slot that does not start before the period. The duration is in minutes.
\<close>

definition slot_in_period :: "period \<Rightarrow> Slot \<Rightarrow> error + bool" where
  "slot_in_period period slot =
     (case to_datetime (starts_at slot) of
        Inl e \<Rightarrow> Inl e
      | Inr start \<Rightarrow>
          if \<not> datetime_le (unavailable_from period) start then Inr False
          else (case to_datetime (starts_at slot) of
                  Inl e \<Rightarrow> Inl e
                | Inr start' \<Rightarrow>
                    (case add_seconds start' (slot_duration slot * 60) of
                       Inl e \<Rightarrow> Inl e
                     | Inr end \<Rightarrow> Inr (datetime_le end (unavailable_until period)))))"

text \<open>What one pair of a period and a slot adds to the list: the slot's index, or nothing.\<close>

definition select_slot :: "Slot list \<Rightarrow> period \<Rightarrow> Slot \<Rightarrow> error + nat list" where
  "select_slot slots period slot =
     (case slot_in_period period slot of
        Inl e \<Rightarrow> Inl e
      | Inr b \<Rightarrow> Inr (if b then [index slots slot] else []))"

text \<open>The inner list comprehension: for each period, for each slot.\<close>

definition unavailable_slots :: "Slot list \<Rightarrow> period list \<Rightarrow> error + nat list" where
  "unavailable_slots slots periods =
     (case sequence [select_slot slots period slot. period \<leftarrow> periods, slot \<leftarrow> slots] of
        Inl e \<Rightarrow> Inl e
      | Inr parts \<Rightarrow> Inr (concat parts))"

text \<open>One item of the dict comprehension: the key, then the value.\<close>

definition unavailability_item ::
  "event_def list \<Rightarrow> Slot list \<Rightarrow> period list \<Rightarrow> event_def \<Rightarrow> error + nat \<times> nat list" where
  "unavailability_item events_definition slots periods event =
     (case unavailable_slots slots periods of
        Inl e \<Rightarrow> Inl e
      | Inr unavailable \<Rightarrow> Inr (index events_definition event, unavailable))"

definition unavailability ::
  "event_def list \<Rightarrow> Slot list \<Rightarrow> (string, period list) dict \<Rightarrow> error + (nat, nat list) dict" where
  "unavailability events_definition slots unavailability_definition =
     (case sequence
             [unavailability_item events_definition slots periods event.
                (p, periods) \<leftarrow> unavailability_definition, event \<leftarrow> events_definition,
                person event = p] of
        Inl e \<Rightarrow> Inl e
      | Inr items \<Rightarrow> Inr (dict_comprehension items))"

section \<open>Value lookup by \<^verbatim>\<open>list.index\<close>\<close>

lemma index_less: "x \<in> set xs \<Longrightarrow> index xs x < length xs"
  by (induction xs) auto

lemma index_nth: "x \<in> set xs \<Longrightarrow> xs ! index xs x = x"
  by (induction xs) auto

lemma index_le_pos: "i < length xs \<Longrightarrow> index xs (xs ! i) \<le> i"
proof (induction xs arbitrary: i)
  case Nil
  then show ?case by simp
next
  case (Cons y ys)
  then show ?case by (cases i) auto
qed

lemma index_inj: "x \<in> set xs \<Longrightarrow> index xs x = index xs y \<Longrightarrow> x = y"
  by (induction xs) (auto split: if_splits)

lemma index_first: "k < index xs x \<Longrightarrow> xs ! k \<noteq> x"
proof (induction xs arbitrary: k)
  case Nil
  then show ?case by simp
next
  case (Cons y ys)
  then show ?case by (cases k) (auto split: if_splits)
qed

lemma index_first_occurrence:
  assumes "i < length xs" and "\<forall>k<i. xs ! k \<noteq> xs ! i"
  shows "index xs (xs ! i) = i"
proof -
  have "index xs (xs ! i) \<le> i" using assms(1) by (rule index_le_pos)
  moreover have "\<not> index xs (xs ! i) < i"
  proof
    assume lt: "index xs (xs ! i) < i"
    have "xs ! i \<in> set xs" using assms(1) by simp
    then have "xs ! index xs (xs ! i) = xs ! i" by (rule index_nth)
    with assms(2) lt show False by blast
  qed
  ultimately show ?thesis by simp
qed

lemma index_later_duplicate:
  assumes "i < j" and "j < length xs" and "xs ! i = xs ! j"
  shows "index xs x \<noteq> j"
proof
  assume eq: "index xs x = j"
  have "x \<in> set xs"
  proof (rule ccontr)
    assume "x \<notin> set xs"
    then have "index xs x = length xs" by (induction xs) auto
    with eq assms(2) show False by simp
  qed
  then have "xs ! index xs x = x" by (rule index_nth)
  then have "xs ! j = x" using eq by simp
  then have "xs ! i = x" using assms(3) by simp
  moreover have "xs ! i \<noteq> x" using index_first [of i xs x] assms(1) eq by simp
  ultimately show False by simp
qed

section \<open>Dictionaries built by repeated assignment\<close>

lemma map_of_fold_update_None:
  assumes "\<And>y. y \<in> set xs \<Longrightarrow> k y \<noteq> key"
  shows "map_of (fold (\<lambda>x d. AList.update (k x) (v x) d) xs d0) key = map_of d0 key"
  using assms by (induction xs rule: rev_induct) (auto simp: update_conv')

lemma map_of_fold_update_Some:
  assumes "x \<in> set xs" and "\<And>y. y \<in> set xs \<Longrightarrow> k y = k x \<Longrightarrow> v y = v x"
  shows "map_of (fold (\<lambda>x d. AList.update (k x) (v x) d) xs d0) (k x) = Some (v x)"
  using assms
proof (induction xs rule: rev_induct)
  case Nil
  then show ?case by simp
next
  case (snoc y ys)
  show ?case
  proof (cases "k y = k x")
    case True
    have "y \<in> set (ys @ [y])" by simp
    then have "v y = v x" using True by (rule snoc.prems(2))
    with True show ?thesis by (simp add: update_conv')
  next
    case False
    then have "x \<in> set ys" using snoc.prems(1) by auto
    moreover have "v z = v x" if "z \<in> set ys" and "k z = k x" for z
    proof (rule snoc.prems(2))
      show "z \<in> set (ys @ [y])" using that(1) by simp
      show "k z = k x" by (rule that(2))
    qed
    ultimately have
      "map_of (fold (\<lambda>x d. AList.update (k x) (v x) d) ys d0) (k x) = Some (v x)"
      by (rule snoc.IH)
    with False show ?thesis by (simp add: update_conv')
  qed
qed

section \<open>EventBuilder\<close>

lemma length_types_and_events:
  "length (types_and_events events_definition) = length events_definition"
  by (simp add: types_and_events_def)

text \<open>
  C8 as stated does not hold: the \<^verbatim>\<open>Event\<close> that is built is given the title, the
  duration, \<^verbatim>\<open>demand=None\<close> and the tags only. Two event specifications that differ
  in nothing but the owning person give the same output, so the output carries no person.
\<close>

theorem types_and_events_drops_person:
  "types_and_events
     [\<lparr>title = ''Keynote'', duration = 30, tags = [''python''], person = ''alice'',
       event_type = ''talk''\<rparr>] =
   [(''talk'', \<lparr>name = ''Keynote'', event_duration = 30, demand = None,
                 event_tags = [''python'']\<rparr>)]
   \<and> types_and_events
     [\<lparr>title = ''Keynote'', duration = 30, tags = [''python''], person = ''bob'',
       event_type = ''talk''\<rparr>] =
     types_and_events
     [\<lparr>title = ''Keynote'', duration = 30, tags = [''python''], person = ''alice'',
       event_type = ''talk''\<rparr>]"
  by (simp add: types_and_events_def)

text \<open>
  C8, amended. For every event specification \<^verbatim>\<open>types_and_events\<close> emits one
  (event-type tag, Event) pair, in input order: the pair at position \<open>i\<close> has the event-type
  tag of the \<open>i\<close>-th specification beside an Event that carries its title, duration and
  tags, with demand unset. The owning person is not part of the output: replacing the person
  of every specification leaves the output unchanged.
\<close>

theorem types_and_events_items:
  "length (types_and_events events_definition) = length events_definition
   \<and> (\<forall>i<length events_definition.
         types_and_events events_definition ! i =
           (event_type (events_definition ! i),
            \<lparr>name = title (events_definition ! i),
             event_duration = duration (events_definition ! i),
             demand = None,
             event_tags = tags (events_definition ! i)\<rparr>))
   \<and> types_and_events (map (\<lambda>event. event\<lparr>person := p\<rparr>) events_definition) =
       types_and_events events_definition"
  by (simp add: types_and_events_def)

theorem types_and_events_items_witness:
  "length (types_and_events
     [\<lparr>title = ''Keynote'', duration = 30, tags = [''python''], person = ''alice'',
       event_type = ''talk''\<rparr>,
      \<lparr>title = ''Lab'', duration = 90, tags = [], person = ''bob'',
       event_type = ''workshop''\<rparr>]) = 2
   \<and> types_and_events
     [\<lparr>title = ''Keynote'', duration = 30, tags = [''python''], person = ''alice'',
       event_type = ''talk''\<rparr>,
      \<lparr>title = ''Lab'', duration = 90, tags = [], person = ''bob'',
       event_type = ''workshop''\<rparr>] ! 1 =
     (''workshop'', \<lparr>name = ''Lab'', event_duration = 90, demand = None, event_tags = []\<rparr>)"
  using types_and_events_items [of
     "[\<lparr>title = ''Keynote'', duration = 30, tags = [''python''], person = ''alice'',
       event_type = ''talk''\<rparr>,
      \<lparr>title = ''Lab'', duration = 90, tags = [], person = ''bob'',
       event_type = ''workshop''\<rparr>]" "''nobody''"]
  by simp

section \<open>UnsuitabilityResolver\<close>




section \<open>ClashResolver: the normalisation\<close>

lemma update_absent: "k \<notin> fst ` set al \<Longrightarrow> AList.update k v al = al @ [(k, v)]"
  by (induction al) auto

lemma update_middle:
  "k \<notin> fst ` set pre \<Longrightarrow> AList.update k v (pre @ (k, w) # al) = pre @ (k, v) # al"
  by (induction pre) auto

lemma add_missing_people_shape:
  "\<exists>new. add_missing_people people cd = cd @ map (\<lambda>p. (p, [p])) new
         \<and> distinct new \<and> set new = set people - fst ` set cd"
proof (induction people arbitrary: cd)
  case Nil
  show ?case by (simp add: add_missing_people_def)
next
  case (Cons p people)
  show ?case
  proof (cases "p \<in> fst ` set cd")
    case True
    from Cons.IH [of cd] obtain new where
      "add_missing_people people cd = cd @ map (\<lambda>p. (p, [p])) new"
      "distinct new" "set new = set people - fst ` set cd" by blast
    with True show ?thesis
      by (intro exI [of _ new]) (auto simp: add_missing_people_def)
  next
    case False
    let ?cd = "cd @ [(p, [p])]"
    from Cons.IH [of ?cd] obtain new where new:
      "add_missing_people people ?cd = ?cd @ map (\<lambda>p. (p, [p])) new"
      "distinct new" "set new = set people - fst ` set ?cd" by blast
    have "add_missing_people (p # people) cd = add_missing_people people ?cd"
      using False by (simp add: add_missing_people_def update_absent)
    with new False show ?thesis
      by (intro exI [of _ "p # new"]) auto
  qed
qed

lemma add_self_clashes_fold:
  assumes "distinct (map fst (pre @ items))"
  shows "fold add_self_clash items (pre @ items, n) =
         (pre @ map self_clash items, n + length (filter (\<lambda>(p, cp). p \<notin> set cp) items))"
  using assms
proof (induction items arbitrary: pre n)
  case Nil
  show ?case by simp
next
  case (Cons item items)
  obtain p cp where item: "item = (p, cp)" by (cases item)
  have notin: "p \<notin> fst ` set pre" using Cons.prems by (auto simp: item)
  show ?case
  proof (cases "p \<in> set cp")
    case True
    have dist: "distinct (map fst ((pre @ [(p, cp)]) @ items))"
      using Cons.prems by (simp add: item)
    have "fold add_self_clash (item # items) (pre @ item # items, n) =
          fold add_self_clash items ((pre @ [(p, cp)]) @ items, n)"
      using True by (simp add: item)
    also have "\<dots> = ((pre @ [(p, cp)]) @ map self_clash items,
                    n + length (filter (\<lambda>(p, cp). p \<notin> set cp) items))"
      by (rule Cons.IH [OF dist])
    finally show ?thesis using True by (simp add: item self_clash_def)
  next
    case False
    have dist: "distinct (map fst ((pre @ [(p, cp @ [p])]) @ items))"
      using Cons.prems by (simp add: item)
    have step: "AList.update p (cp @ [p]) (pre @ (p, cp) # items) = pre @ (p, cp @ [p]) # items"
      using notin by (rule update_middle)
    have "fold add_self_clash (item # items) (pre @ item # items, n) =
          fold add_self_clash items ((pre @ [(p, cp @ [p])]) @ items, Suc n)"
      using False by (simp add: item step)
    also have "\<dots> = ((pre @ [(p, cp @ [p])]) @ map self_clash items,
                    Suc n + length (filter (\<lambda>(p, cp). p \<notin> set cp) items))"
      by (rule Cons.IH [OF dist])
    finally show ?thesis using False by (simp add: item self_clash_def)
  qed
qed

lemma add_self_clashes_eq:
  assumes "distinct (map fst cd)"
  shows "add_self_clashes cd =
           (map self_clash cd, length (filter (\<lambda>(p, cp). p \<notin> set cp) cd))"
  using add_self_clashes_fold [of "[]" cd 0] assms by (simp add: add_self_clashes_def)

lemma add_self_clashes_count:
  "snd (add_self_clashes cd) = length (filter (\<lambda>(p, cp). p \<notin> set cp) cd)"
proof -
  have "snd (fold add_self_clash items (d, n)) =
         n + length (filter (\<lambda>(p, cp). p \<notin> set cp) items)" for items d n
  proof (induction items arbitrary: d n)
    case Nil
    show ?case by simp
  next
    case (Cons item items)
    obtain p cp where item: "item = (p, cp)" by (cases item)
    show ?case by (cases "p \<in> set cp") (simp_all add: item Cons.IH)
  qed
  then show ?thesis by (simp add: add_self_clashes_def)
qed

lemma self_clash_own [simp]: "self_clash (p, [p]) = (p, [p])"
  by (simp add: self_clash_def)

lemma fst_comp_self_clash [simp]: "fst \<circ> self_clash = fst"
  by (rule ext) (simp add: self_clash_def)

lemma own_entries_keys [simp]: "map fst (map (\<lambda>p. (p, [p])) new) = new"
  by (induction new) simp_all

lemma own_entries_lookup:
  "map_of (map (\<lambda>p. (p, [p])) new) p = (if p \<in> set new then Some [p] else None)"
  by (induction new) auto

lemma map_of_self_clash:
  "map_of (map self_clash al) k =
     map_option (\<lambda>cp. if k \<in> set cp then cp else cp @ [k]) (map_of al k)"
  by (induction al) (auto simp: self_clash_def)

lemma add_missing_people_distinct:
  assumes "distinct (map fst cd)"
  shows "distinct (map fst (add_missing_people people cd))"
proof -
  obtain new where new: "add_missing_people people cd = cd @ map (\<lambda>p. (p, [p])) new"
    "distinct new" "set new = set people - fst ` set cd"
    using add_missing_people_shape by blast
  have "map fst (add_missing_people people cd) = map fst cd @ new"
    unfolding new(1) map_append own_entries_keys ..
  with new assms show ?thesis by auto
qed

lemma add_missing_people_keys:
  "fst ` set (add_missing_people people cd) = fst ` set cd \<union> set people"
proof -
  obtain new where new: "add_missing_people people cd = cd @ map (\<lambda>p. (p, [p])) new"
    "set new = set people - fst ` set cd"
    using add_missing_people_shape by blast
  have "map fst (add_missing_people people cd) = map fst cd @ new"
    unfolding new(1) map_append own_entries_keys ..
  then have "set (map fst (add_missing_people people cd)) = set (map fst cd @ new)"
    by simp
  then have "fst ` set (add_missing_people people cd) = fst ` set cd \<union> set new"
    by simp
  with new(2) show ?thesis by auto
qed

lemma clashes_count:
  "snd (fst (clashes evs cd)) = length (filter (\<lambda>(p, cp). p \<notin> set cp) cd)"
proof -
  obtain new where new:
    "add_missing_people (map person evs) cd = cd @ map (\<lambda>p. (p, [p])) new"
    using add_missing_people_shape by blast
  have "filter (\<lambda>(p, cp). p \<notin> set cp) (map (\<lambda>p. (p, [p])) new) = []"
    by (induction new) simp_all
  then have "snd (add_self_clashes (add_missing_people (map person evs) cd)) =
        length (filter (\<lambda>(p, cp). p \<notin> set cp) cd)"
    by (simp add: add_self_clashes_count new)
  then show ?thesis
    by (simp add: clashes_def Let_def case_prod_beta)
qed

lemma clashes_normalised:
  assumes "distinct (map fst cd)"
  shows "snd (clashes evs cd) = map self_clash (add_missing_people (map person evs) cd)"
  using add_self_clashes_eq [OF add_missing_people_distinct [OF assms, of "map person evs"]]
  by (simp add: clashes_def Let_def)

lemma clashes_dict_eq:
  "fst (fst (clashes evs cd)) =
     dict_comprehension
       [(index evs event, clashing_events evs clashing_people event).
          (p, clashing_people) \<leftarrow> snd (clashes evs cd), event \<leftarrow> evs, person event = p]"
  by (simp add: clashes_def Let_def case_prod_beta)

lemma clashes_normalised_shape:
  assumes "distinct (map fst cd)"
  shows "\<exists>new. snd (clashes evs cd) = map self_clash cd @ map (\<lambda>p. (p, [p])) new
           \<and> distinct new \<and> set new = person ` set evs - fst ` set cd"
proof -
  obtain new where new:
    "add_missing_people (map person evs) cd = cd @ map (\<lambda>p. (p, [p])) new"
    "distinct new" "set new = set (map person evs) - fst ` set cd"
    using add_missing_people_shape by blast
  have "map self_clash (map (\<lambda>p. (p, [p])) new) = map (\<lambda>p. (p, [p])) new"
    by (induction new) simp_all
  with new show ?thesis
    by (intro exI [of _ new]) (simp add: clashes_normalised [OF assms])
qed


lemma clashes_normalised_lookup:
  assumes "distinct (map fst cd)"
  shows "map_of (snd (clashes evs cd)) p =
     (case map_of cd p of
        Some cp \<Rightarrow> Some (if p \<in> set cp then cp else cp @ [p])
      | None \<Rightarrow> if p \<in> person ` set evs then Some [p] else None)"
proof -
  obtain new where new:
    "snd (clashes evs cd) = map self_clash cd @ map (\<lambda>p. (p, [p])) new"
    "set new = person ` set evs - fst ` set cd"
    using clashes_normalised_shape [OF assms] by blast
  show ?thesis
  proof (cases "map_of cd p")
    case None
    then have "p \<notin> fst ` set cd" by (simp add: map_of_eq_None_iff)
    then have "p \<in> set new \<longleftrightarrow> p \<in> person ` set evs" using new(2) by simp
    with None show ?thesis
      unfolding new(1) map_of_append
      by (simp add: map_add_def map_of_self_clash own_entries_lookup)
  next
    case (Some cp)
    then show ?thesis
      unfolding new(1) map_of_append
      by (simp add: map_add_def map_of_self_clash own_entries_lookup)
  qed
qed

section \<open>Dict comprehensions\<close>

lemma dict_comprehension_fold:
  "dict_comprehension items = fold (\<lambda>x d. AList.update (fst x) (snd x) d) items []"
  by (simp add: dict_comprehension_def case_prod_unfold)

lemma dict_comprehension_Some:
  assumes "(k, v) \<in> set items" and "\<And>v'. (k, v') \<in> set items \<Longrightarrow> v' = v"
  shows "map_of (dict_comprehension items) k = Some v"
proof -
  have "snd y = snd (k, v)" if "y \<in> set items" and "fst y = fst (k, v)" for y
  proof -
    have "y = (k, snd y)" using that(2) by (simp add: prod_eq_iff)
    with that(1) have "(k, snd y) \<in> set items" by simp
    then show ?thesis using assms(2) by simp
  qed
  with assms(1) have
    "map_of (fold (\<lambda>x d. AList.update (fst x) (snd x) d) items []) (fst (k, v)) =
       Some (snd (k, v))"
    by (rule map_of_fold_update_Some)
  then show ?thesis by (simp add: dict_comprehension_fold)
qed

lemma dict_comprehension_None:
  assumes "k \<notin> fst ` set items"
  shows "map_of (dict_comprehension items) k = None"
proof -
  have "fst y \<noteq> k" if "y \<in> set items" for y using that assms by auto
  then have "map_of (fold (\<lambda>x d. AList.update (fst x) (snd x) d) items []) k = map_of [] k"
    by (rule map_of_fold_update_None)
  then show ?thesis by (simp add: dict_comprehension_fold)
qed

lemma fold_update_keys:
  "fst ` set (fold (\<lambda>x d. AList.update (fst x) (snd x) d) items d0) =
     fst ` set d0 \<union> fst ` set items"
  by (induction items arbitrary: d0) (auto simp: dom_update)

lemma dict_comprehension_keys:
  "fst ` set (dict_comprehension items) = fst ` set items"
  by (simp add: dict_comprehension_fold fold_update_keys)

lemma fold_update_entries:
  "(k, v) \<in> set (fold (\<lambda>x d. AList.update (fst x) (snd x) d) items d0) \<Longrightarrow>
     (k, v) \<in> set d0 \<or> (k, v) \<in> set items"
proof (induction items arbitrary: d0)
  case Nil
  then show ?case by simp
next
  case (Cons x items)
  from Cons.IH [OF Cons.prems [simplified]]
  have "(k, v) \<in> set (AList.update (fst x) (snd x) d0) \<or> (k, v) \<in> set items" .
  moreover have "(k, v) \<in> set d0 \<or> (k, v) = x"
    if "(k, v) \<in> set (AList.update (fst x) (snd x) d0)"
    using that by (induction d0) (auto split: if_splits)
  ultimately show ?case by auto
qed

lemma dict_comprehension_entries:
  "(k, v) \<in> set (dict_comprehension items) \<Longrightarrow> (k, v) \<in> set items"
  using fold_update_entries [of k v items "[]"] by (simp add: dict_comprehension_fold)

section \<open>ClashResolver: the derived clash lists\<close>

lemma set_clashing_events:
  "set (clashing_events evs cp event) =
     {index evs t | t. t \<in> set evs \<and> person t \<in> set cp \<and> index evs event \<noteq> index evs t}"
  by (auto simp: clashing_events_def)

lemma clashes_items_iff:
  "(k, v) \<in> set [(index evs event, clashing_events evs clashing_people event).
                  (p, clashing_people) \<leftarrow> cd, event \<leftarrow> evs, person event = p] \<longleftrightarrow>
   (\<exists>cp event. (person event, cp) \<in> set cd \<and> event \<in> set evs
        \<and> k = index evs event \<and> v = clashing_events evs cp event)"
  by auto


section \<open>ClashResolver: count, reflexivity and derived lists\<close>

lemma clashes_alone:
  "clashes [\<lparr>title = ''Intro'', duration = 30, tags = [], person = ''dave'',
              event_type = ''talk''\<rparr>] [] =
     (([(0, [])], 0), [(''dave'', [''dave''])])"
  by (simp add: clashes_def add_missing_people_def add_self_clashes_def
      dict_comprehension_def clashing_events_def)


lemma clashes_bob_dave:
  "clashes [\<lparr>title = ''B'', duration = 30, tags = [], person = ''bob'',
              event_type = ''talk''\<rparr>,
            \<lparr>title = ''D'', duration = 30, tags = [], person = ''dave'',
              event_type = ''talk''\<rparr>]
       [(''bob'', [''dave''])] =
     (([(0, [1]), (1, [])], 1),
      [(''bob'', [''dave'', ''bob'']), (''dave'', [''dave''])])"
  by (simp add: clashes_def add_missing_people_def add_self_clashes_def
      dict_comprehension_def clashing_events_def)

lemma clashes_owner_entry:
  assumes "distinct (map fst cd)" and "event \<in> set evs"
  shows "\<exists>cp. map_of (snd (clashes evs cd)) (person event) = Some cp \<and> person event \<in> set cp"
proof (cases "map_of cd (person event)")
  case None
  with assms(2) show ?thesis by (simp add: clashes_normalised_lookup [OF assms(1)])
next
  case (Some cp)
  then show ?thesis by (simp add: clashes_normalised_lookup [OF assms(1)])
qed

text \<open>
  C1 as stated does not hold. The counter is set to zero after the loop that adds the missing
  people and is raised only by the loop that appends a person to a list already in the
  mapping. With the clash definitions empty and one event owned by dave, the entry
  \<^verbatim>\<open>{"dave": ["dave"]}\<close> is injected, dave's event has an empty clash list, and the
  returned count is 0, not 1.
\<close>

theorem clashes_omitted_person_count_zero:
  "clashes [\<lparr>title = ''Intro'', duration = 30, tags = [], person = ''dave'',
              event_type = ''talk''\<rparr>] [] =
     (([(0, [])], 0), [(''dave'', [''dave''])])
   \<and> snd (fst (clashes [\<lparr>title = ''Intro'', duration = 30, tags = [], person = ''dave'',
              event_type = ''talk''\<rparr>] [])) \<noteq> 1"
  by (simp add: clashes_alone)

text \<open>
  C1, amended. The returned count is the number of entries of the caller's clash definitions
  whose list did not contain their own key, which are the entries the normalisation appends
  the person to. A person who owns an event and is omitted from the clash definitions is
  given the entry that maps the person to themselves alone; that entry does not add to the
  count.
\<close>

theorem clashes_count_existing_entries:
  assumes "distinct (map fst clashes_definition)"
  shows "snd (fst (clashes events_definition clashes_definition)) =
           length (filter (\<lambda>(p, clashing_people). p \<notin> set clashing_people)
                     clashes_definition)
         \<and> (\<forall>event \<in> set events_definition.
               person event \<notin> fst ` set clashes_definition \<longrightarrow>
               map_of (snd (clashes events_definition clashes_definition)) (person event) =
                 Some [person event])"
proof -
  have "map_of (snd (clashes events_definition clashes_definition)) (person event) =
          Some [person event]"
    if "event \<in> set events_definition" and "person event \<notin> fst ` set clashes_definition"
    for event
  proof -
    have "map_of clashes_definition (person event) = None"
      using that(2) by (simp add: map_of_eq_None_iff)
    then show ?thesis
      using that(1) by (simp add: clashes_normalised_lookup [OF assms])
  qed
  then show ?thesis by (simp add: clashes_count)
qed

theorem clashes_count_existing_entries_witness:
  "distinct (map fst [(''bob'', [''dave''])])
   \<and> snd (fst (clashes
        [\<lparr>title = ''B'', duration = 30, tags = [], person = ''bob'', event_type = ''talk''\<rparr>,
         \<lparr>title = ''D'', duration = 30, tags = [], person = ''dave'', event_type = ''talk''\<rparr>]
        [(''bob'', [''dave''])])) = 1
   \<and> map_of (snd (clashes
        [\<lparr>title = ''B'', duration = 30, tags = [], person = ''bob'', event_type = ''talk''\<rparr>,
         \<lparr>title = ''D'', duration = 30, tags = [], person = ''dave'', event_type = ''talk''\<rparr>]
        [(''bob'', [''dave''])])) ''dave'' = Some [''dave'']"
proof -
  have d: "distinct (map fst [(''bob'', [''dave''])])" by simp
  show ?thesis
    using clashes_count_existing_entries [OF d, of
      "[\<lparr>title = ''B'', duration = 30, tags = [], person = ''bob'', event_type = ''talk''\<rparr>,
        \<lparr>title = ''D'', duration = 30, tags = [], person = ''dave'', event_type = ''talk''\<rparr>]"]
    by simp
qed

text \<open>
  C4. A Python dict has no repeated key. After the normalisation, every person who owns at
  least one event has an entry in the clash mapping, and the person is in the list of that
  entry: the normalised relation is reflexive on the people who own events.
\<close>

theorem clashes_reflexive:
  assumes "distinct (map fst clashes_definition)" and "event \<in> set events_definition"
  shows "\<exists>clashing_people.
           map_of (snd (clashes events_definition clashes_definition)) (person event) =
             Some clashing_people
           \<and> person event \<in> set clashing_people"
  using assms by (rule clashes_owner_entry)

theorem clashes_reflexive_witness:
  "\<exists>clashing_people.
     map_of (snd (clashes
        [\<lparr>title = ''B'', duration = 30, tags = [], person = ''bob'', event_type = ''talk''\<rparr>,
         \<lparr>title = ''D'', duration = 30, tags = [], person = ''dave'', event_type = ''talk''\<rparr>]
        [(''bob'', [''dave''])])) ''bob'' = Some clashing_people
     \<and> ''bob'' \<in> set clashing_people"
proof -
  have d: "distinct (map fst [(''bob'', [''dave''])])" by simp
  have m: "\<lparr>title = ''B'', duration = 30, tags = [], person = ''bob'', event_type = ''talk''\<rparr>
    \<in> set [\<lparr>title = ''B'', duration = 30, tags = [], person = ''bob'', event_type = ''talk''\<rparr>,
         \<lparr>title = ''D'', duration = 30, tags = [], person = ''dave'', event_type = ''talk''\<rparr>]"
    by simp
  show ?thesis using clashes_reflexive [OF d m] by simp
qed

text \<open>
  C9 as stated does not hold: \<^verbatim>\<open>clashes\<close> assigns to the mapping it is given and appends
  to the lists in it. Called with \<^verbatim>\<open>{"bob": ["dave"]}\<close> and events of bob and dave, it
  leaves the caller's mapping as \<^verbatim>\<open>{"bob": ["dave", "bob"], "dave": ["dave"]}\<close>.
\<close>

theorem clashes_mutates_definition:
  "snd (clashes
        [\<lparr>title = ''B'', duration = 30, tags = [], person = ''bob'', event_type = ''talk''\<rparr>,
         \<lparr>title = ''D'', duration = 30, tags = [], person = ''dave'', event_type = ''talk''\<rparr>]
        [(''bob'', [''dave''])]) =
     [(''bob'', [''dave'', ''bob'']), (''dave'', [''dave''])]
   \<and> snd (clashes
        [\<lparr>title = ''B'', duration = 30, tags = [], person = ''bob'', event_type = ''talk''\<rparr>,
         \<lparr>title = ''D'', duration = 30, tags = [], person = ''dave'', event_type = ''talk''\<rparr>]
        [(''bob'', [''dave''])]) \<noteq> [(''bob'', [''dave''])]"
  by (simp add: clashes_bob_dave)

text \<open>
  C9, amended. The clashes operation normalises the caller-supplied clash-definitions mapping
  in place. After the call the caller's mapping holds the entries it had, in their order, each
  with its own key appended to its list when the list lacked it, followed by an entry
  \<^verbatim>\<open>[person]\<close> for each person who owns an event and had no entry. The mapping is
  left as it was exactly when it was normalised already: every owner of an event has an entry
  and every entry lists its own key.
\<close>

theorem clashes_rewrites_definition:
  assumes "distinct (map fst clashes_definition)"
  shows "(\<exists>new. snd (clashes events_definition clashes_definition) =
                  map self_clash clashes_definition @ map (\<lambda>p. (p, [p])) new
               \<and> distinct new
               \<and> set new = person ` set events_definition - fst ` set clashes_definition)
         \<and> (snd (clashes events_definition clashes_definition) = clashes_definition \<longleftrightarrow>
              person ` set events_definition \<subseteq> fst ` set clashes_definition
              \<and> (\<forall>(p, clashing_people) \<in> set clashes_definition. p \<in> set clashing_people))"
proof -
  let ?cd = clashes_definition
  obtain new where new:
    "snd (clashes events_definition ?cd) = map self_clash ?cd @ map (\<lambda>p. (p, [p])) new"
    "distinct new" "set new = person ` set events_definition - fst ` set ?cd"
    using clashes_normalised_shape [OF assms] by blast
  have fixed: "map self_clash ?cd = ?cd \<longleftrightarrow> (\<forall>(p, cp) \<in> set ?cd. p \<in> set cp)"
  proof -
    have "map self_clash ?cd = ?cd \<longleftrightarrow> map self_clash ?cd = map id ?cd" by simp
    also have "\<dots> \<longleftrightarrow> (\<forall>item \<in> set ?cd. self_clash item = id item)"
      by (rule map_eq_conv)
    also have "\<dots> \<longleftrightarrow> (\<forall>(p, cp) \<in> set ?cd. p \<in> set cp)"
      by (auto simp: self_clash_def)
    finally show ?thesis .
  qed
  have "snd (clashes events_definition ?cd) = ?cd \<longleftrightarrow> new = [] \<and> map self_clash ?cd = ?cd"
  proof
    assume eq: "snd (clashes events_definition ?cd) = ?cd"
    then have "length (map self_clash ?cd @ map (\<lambda>p. (p, [p])) new) = length ?cd"
      using new(1) by simp
    then have "new = []" by simp
    with eq new(1) show "new = [] \<and> map self_clash ?cd = ?cd" by simp
  next
    assume "new = [] \<and> map self_clash ?cd = ?cd"
    then show "snd (clashes events_definition ?cd) = ?cd" using new(1) by simp
  qed
  moreover have "new = [] \<longleftrightarrow> person ` set events_definition \<subseteq> fst ` set ?cd"
    using new(3) by (metis Diff_eq_empty_iff set_empty)
  ultimately have "snd (clashes events_definition ?cd) = ?cd \<longleftrightarrow>
      person ` set events_definition \<subseteq> fst ` set ?cd \<and> (\<forall>(p, cp) \<in> set ?cd. p \<in> set cp)"
    using fixed by simp
  with new show ?thesis by blast
qed

theorem clashes_rewrites_definition_witness:
  "distinct (map fst [(''bob'', [''bob'', ''dave''])])
   \<and> snd (clashes
        [\<lparr>title = ''B'', duration = 30, tags = [], person = ''bob'', event_type = ''talk''\<rparr>]
        [(''bob'', [''bob'', ''dave''])]) = [(''bob'', [''bob'', ''dave''])]"
proof -
  have d: "distinct (map fst [(''bob'', [''bob'', ''dave''])])" by simp
  show ?thesis
    using clashes_rewrites_definition [OF d, of
      "[\<lparr>title = ''B'', duration = 30, tags = [], person = ''bob'', event_type = ''talk''\<rparr>]"]
    by (simp add: self_clash_def)
qed



section \<open>Formatting and parsing timestamps\<close>

lemma less_10_cases:
  "a < 10 \<Longrightarrow>
     a = 0 \<or> a = 1 \<or> a = 2 \<or> a = 3 \<or> a = 4 \<or> a = 5 \<or> a = 6 \<or> a = 7 \<or> a = 8 \<or> a = (9::nat)"
  by arith

lemma is_digit_digit: "a < 10 \<Longrightarrow> is_digit (digit a)"
  using less_10_cases [of a] by (auto simp: is_digit_def digit_def)

lemma digit_val_digit: "a < 10 \<Longrightarrow> digit_val (digit a) = a"
  using less_10_cases [of a] by (auto simp: digit_val_def digit_def)

lemma not_space_digit: "a < 10 \<Longrightarrow> \<not> is_space (digit a)"
  using less_10_cases [of a] by (auto simp: is_space_def digit_def)

lemma lit_same: "lit c (c # r) = [r]"
  by (simp add: lit_def)

lemma two_digits_digit:
  "a < 10 \<Longrightarrow> b < 10 \<Longrightarrow>
     two_digits P (digit a # digit b # r) = (if P a b then [(10 * a + b, r)] else [])"
  by (simp add: two_digits_def is_digit_digit digit_val_digit)

lemma re_d_digits:
  assumes "a < 10" and "b < 10" and "1 \<le> 10 * a + b" and "10 * a + b \<le> 31"
  shows "\<exists>xs. re_d (digit a # digit b # r) = (10 * a + b, r) # xs"
proof -
  consider "a = 3" "b \<le> 1" | "1 \<le> a" "a \<le> 2" | "a = 0" "1 \<le> b"
    using assms by linarith
  then show ?thesis
    by cases (simp_all add: re_d_def two_digits_digit assms(1,2))
qed

lemma re_H_digits:
  assumes "a < 10" and "b < 10" and "10 * a + b < 24"
  shows "\<exists>xs. re_H (digit a # digit b # r) = (10 * a + b, r) # xs"
proof -
  consider "a = 2" "b \<le> 3" | "a \<le> 1"
    using assms by linarith
  then show ?thesis
    by cases (simp_all add: re_H_def two_digits_digit assms(1,2))
qed

lemma re_M_digits:
  assumes "a < 10" and "b < 10" and "10 * a + b < 60"
  shows "\<exists>xs. re_M (digit a # digit b # r) = (10 * a + b, r) # xs"
proof -
  have "a \<le> 5" using assms by linarith
  then show ?thesis
    by (simp add: re_M_def two_digits_digit assms(1,2))
qed

lemma re_Y_digits:
  assumes "a < 10" and "b < 10" and "c < 10" and "d < 10"
  shows "re_Y (digit a # digit b # digit c # digit d # r) =
           [(1000 * a + 100 * b + 10 * c + d, r)]"
  using assms by (simp add: re_Y_def is_digit_digit digit_val_digit)

lemma re_space_blank:
  assumes "\<not> is_space c"
  shows "re_space (CHR '' '' # c # r) = [c # r]"
proof -
  have "is_space CHR '' ''" by (simp add: is_space_def)
  then have "takeWhile is_space (CHR '' '' # c # r) = [CHR '' '']"
    using assms by simp
  then show ?thesis by (simp add: re_space_def)
qed

lemma month_cases:
  "1 \<le> m \<Longrightarrow> m \<le> 12 \<Longrightarrow>
     m = 1 \<or> m = 2 \<or> m = 3 \<or> m = 4 \<or> m = 5 \<or> m = 6 \<or> m = 7 \<or> m = 8 \<or> m = 9 \<or> m = 10
     \<or> m = 11 \<or> m = (12::nat)"
  by arith

lemma re_b_month:
  assumes "1 \<le> m" and "m \<le> 12"
  shows "re_b (month_abbr m @ r) = [(m, r)]"
  using month_cases [OF assms]
  by (elim disjE) (simp_all add: re_b_def month_abbr_def a_month_def to_lower_def)

lemma days_in_month_le: "days_in_month y m \<le> 31"
  by (simp add: days_in_month_def)

lemma days_in_month_ge: "28 \<le> days_in_month y m"
  by (simp add: days_in_month_def)

lemma two_digit_value: "n < 100 \<Longrightarrow> 10 * (n div 10 mod 10) + n mod 10 = (n::nat)"
proof -
  assume "n < 100"
  then have "n div 10 < 10" by simp
  then have "n div 10 mod 10 = n div 10" by simp
  then show ?thesis by simp
qed

lemma four_digit_value:
  assumes "n < 10000"
  shows "1000 * (n div 1000 mod 10) + 100 * (n div 100 mod 10) + 10 * (n div 10 mod 10)
           + n mod 10 = (n::nat)"
proof -
  define q1 q2 q3 where "q1 = n div 10" and "q2 = q1 div 10" and "q3 = q2 div 10"
  define m0 m1 m2 where "m0 = n mod 10" and "m1 = q1 mod 10" and "m2 = q2 mod 10"
  have e100: "n div 100 = q2" unfolding q2_def q1_def by (simp add: div_mult2_eq [symmetric])
  have e1000: "n div 1000 = q3"
    unfolding q3_def q2_def q1_def by (simp add: div_mult2_eq [symmetric])
  have "q3 < 10" using assms unfolding e1000 [symmetric] by simp
  then have m3: "q3 mod 10 = q3" by simp
  have n: "n = 10 * q1 + m0" unfolding q1_def m0_def by simp
  have a: "q1 = 10 * q2 + m1" unfolding q2_def m1_def by simp
  have b: "q2 = 10 * q3 + m2" unfolding q3_def m2_def by simp
  have "1000 * q3 + 100 * m2 + 10 * m1 + m0 = n"
    using n a b by linarith
  then show ?thesis
    unfolding e100 e1000 m3 m0_def m1_def m2_def q1_def [symmetric] .
qed

lemma decimal_four_digits:
  assumes "1000 \<le> n" and "n \<le> 9999"
  shows "decimal n = pad4 n"
proof -
  define q1 q2 q3 where "q1 = n div 10" and "q2 = q1 div 10" and "q3 = q2 div 10"
  have e100: "n div 100 = q2" unfolding q2_def q1_def by (simp add: div_mult2_eq [symmetric])
  have e1000: "n div 1000 = q3"
    unfolding q3_def q2_def q1_def by (simp add: div_mult2_eq [symmetric])
  have b: "\<not> n < 10" "\<not> q1 < 10" "\<not> q2 < 10" "q3 < 10"
    using assms by (simp_all add: q1_def e100 [symmetric] e1000 [symmetric])
  have "decimal n = decimal q1 @ [digit (n mod 10)]"
    using b(1) by (subst decimal.simps) (simp add: q1_def)
  also have "decimal q1 = decimal q2 @ [digit (q1 mod 10)]"
    using b(2) by (subst decimal.simps) (simp add: q2_def)
  also have "decimal q2 = decimal q3 @ [digit (q2 mod 10)]"
    using b(3) by (subst decimal.simps) (simp add: q3_def)
  also have "decimal q3 = [digit q3]"
    using b(4) by (subst decimal.simps) simp
  finally have "decimal n = [digit q3, digit (q2 mod 10), digit (q1 mod 10), digit (n mod 10)]"
    by simp
  moreover have "q3 mod 10 = q3" using b(4) by simp
  ultimately show ?thesis
    unfolding pad4_def e100 e1000 q1_def [symmetric] by simp
qed

lemma strptime_matches_strftime:
  assumes "year dt \<le> 9999" and "1 \<le> month dt" and "month dt \<le> 12"
    and "1 \<le> day dt" and "day dt \<le> 31" and "hour dt < 24" and "minute dt < 60"
    and "1000 \<le> year dt"
  shows "\<exists>xs. strptime_matches (strftime dt) =
               ((day dt, month dt, year dt, hour dt, minute dt), []) # xs"
proof -
  define a1 b1 where "a1 = day dt div 10 mod 10" and "b1 = day dt mod 10"
  define y1 y2 y3 y4 where "y1 = year dt div 1000 mod 10" and "y2 = year dt div 100 mod 10"
    and "y3 = year dt div 10 mod 10" and "y4 = year dt mod 10"
  define a4 b4 where "a4 = hour dt div 10 mod 10" and "b4 = hour dt mod 10"
  define a5 b5 where "a5 = minute dt div 10 mod 10" and "b5 = minute dt mod 10"
  define s8 where "s8 = [digit a5, digit b5]"
  define s6 where "s6 = digit a4 # digit b4 # CHR '':'' # s8"
  define s4 where "s4 = digit y1 # digit y2 # digit y3 # digit y4 # CHR '' '' # s6"
  define s2 where "s2 = month_abbr (month dt) @ CHR ''-'' # s4"
  have yd: "decimal (year dt) = pad4 (year dt)"
    using assms(8,1) by (rule decimal_four_digits)
  have shape: "strftime dt = digit a1 # digit b1 # CHR ''-'' # s2"
    by (simp add: strftime_def yd pad2_def pad4_def s2_def s4_def s6_def s8_def a1_def b1_def
        y1_def y2_def y3_def y4_def a4_def b4_def a5_def b5_def)
  have lt: "a1 < 10" "b1 < 10" "y1 < 10" "y2 < 10" "y3 < 10" "y4 < 10"
    "a4 < 10" "b4 < 10" "a5 < 10" "b5 < 10"
    by (simp_all add: a1_def b1_def y1_def y2_def y3_def y4_def a4_def b4_def a5_def b5_def)
  have d: "10 * a1 + b1 = day dt"
    unfolding a1_def b1_def using assms(5) by (intro two_digit_value) simp
  have y: "1000 * y1 + 100 * y2 + 10 * y3 + y4 = year dt"
    unfolding y1_def y2_def y3_def y4_def using assms(1) by (intro four_digit_value) simp
  have h: "10 * a4 + b4 = hour dt"
    unfolding a4_def b4_def using assms(6) by (intro two_digit_value) simp
  have m: "10 * a5 + b5 = minute dt"
    unfolding a5_def b5_def using assms(7) by (intro two_digit_value) simp
  obtain xs1 where D: "re_d (digit a1 # digit b1 # CHR ''-'' # s2) = (day dt, CHR ''-'' # s2) # xs1"
    using re_d_digits [of a1 b1 "CHR ''-'' # s2"] lt d assms(4,5) by auto
  have B: "re_b s2 = [(month dt, CHR ''-'' # s4)]"
    unfolding s2_def using assms(2,3) by (rule re_b_month)
  have Y: "re_Y s4 = [(year dt, CHR '' '' # s6)]"
    unfolding s4_def using re_Y_digits [of y1 y2 y3 y4 "CHR '' '' # s6"] lt y by simp
  have S: "re_space (CHR '' '' # s6) = [s6]"
    unfolding s6_def using lt by (intro re_space_blank not_space_digit)
  obtain xs7 where H: "re_H s6 = (hour dt, CHR '':'' # s8) # xs7"
    unfolding s6_def using re_H_digits [of a4 b4 "CHR '':'' # s8"] lt h assms(6) by auto
  obtain xs9 where M: "re_M s8 = (minute dt, []) # xs9"
    unfolding s8_def using re_M_digits [of a5 b5 "[]"] lt m assms(7) by auto
  show ?thesis
    unfolding shape strptime_matches_def by (simp add: D B Y S H M lit_same)
qed

lemma to_datetime_strftime:
  assumes "1000 \<le> year dt" and "year dt \<le> 9999" and "1 \<le> month dt" and "month dt \<le> 12"
    and "1 \<le> day dt" and "day dt \<le> days_in_month (year dt) (month dt)"
    and "hour dt < 24" and "minute dt < 60"
  shows "to_datetime (strftime dt) =
           Inr \<lparr>year = year dt, month = month dt, day = day dt, hour = hour dt,
                minute = minute dt, second = 0, microsecond = 0\<rparr>"
proof -
  have "day dt \<le> 31" using assms(6) days_in_month_le [of "year dt" "month dt"] by simp
  with assms obtain xs where
    "strptime_matches (strftime dt) =
       ((day dt, month dt, year dt, hour dt, minute dt), []) # xs"
    using strptime_matches_strftime [of dt] by blast
  then show ?thesis using assms(1,6) by (simp add: to_datetime_def)
qed

section \<open>Adding seconds to a datetime\<close>

lemma next_day_month_day:
  assumes "1 \<le> month d" and "month d \<le> 12" and "1 \<le> day d"
    and "day d \<le> days_in_month (year d) (month d)"
  shows "1 \<le> month (next_day d) \<and> month (next_day d) \<le> 12 \<and> 1 \<le> day (next_day d)
         \<and> day (next_day d) \<le> days_in_month (year (next_day d)) (month (next_day d))"
  using assms days_in_month_ge [of "year d" "Suc (month d)"] days_in_month_ge [of "Suc (year d)" 1]
  by (simp add: next_day_def)

lemma prev_day_month_day:
  assumes "1 \<le> month d" and "month d \<le> 12" and "1 \<le> day d"
    and "day d \<le> days_in_month (year d) (month d)"
  shows "1 \<le> month (prev_day d) \<and> month (prev_day d) \<le> 12 \<and> 1 \<le> day (prev_day d)
         \<and> day (prev_day d) \<le> days_in_month (year (prev_day d)) (month (prev_day d))"
proof -
  consider (a) "1 < day d" | (b) "\<not> 1 < day d" "1 < month d"
    | (c) "\<not> 1 < day d" "\<not> 1 < month d"
    by blast
  then show ?thesis
  proof cases
    case a
    then show ?thesis using assms by (auto simp: prev_day_def)
  next
    case b
    then show ?thesis
      using assms(2) days_in_month_ge [of "year d" "month d - 1"] by (auto simp: prev_day_def)
  next
    case c
    have "days_in_month (year d - 1) 12 = 31" by (simp add: days_in_month_def)
    with c show ?thesis by (simp add: prev_day_def)
  qed
qed

lemma next_days_month_day:
  assumes "1 \<le> month d \<and> month d \<le> 12 \<and> 1 \<le> day d
           \<and> day d \<le> days_in_month (year d) (month d)"
  shows "1 \<le> month ((next_day ^^ k) d) \<and> month ((next_day ^^ k) d) \<le> 12
         \<and> 1 \<le> day ((next_day ^^ k) d)
         \<and> day ((next_day ^^ k) d)
             \<le> days_in_month (year ((next_day ^^ k) d)) (month ((next_day ^^ k) d))"
proof (induction k)
  case 0
  show ?case using assms by simp
next
  case (Suc k)
  show ?case using next_day_month_day [of "(next_day ^^ k) d"] Suc.IH by simp
qed

lemma prev_days_month_day:
  assumes "1 \<le> month d \<and> month d \<le> 12 \<and> 1 \<le> day d
           \<and> day d \<le> days_in_month (year d) (month d)"
  shows "1 \<le> month ((prev_day ^^ k) d) \<and> month ((prev_day ^^ k) d) \<le> 12
         \<and> 1 \<le> day ((prev_day ^^ k) d)
         \<and> day ((prev_day ^^ k) d)
             \<le> days_in_month (year ((prev_day ^^ k) d)) (month ((prev_day ^^ k) d))"
proof (induction k)
  case 0
  show ?case using assms by simp
next
  case (Suc k)
  show ?case using prev_day_month_day [of "(prev_day ^^ k) d"] Suc.IH by simp
qed

lemma next_day_microsecond: "microsecond ((next_day ^^ n) dt) = microsecond dt"
  by (induction n) (simp_all add: next_day_def)

lemma prev_day_microsecond: "microsecond ((prev_day ^^ n) dt) = microsecond dt"
  by (induction n) (simp_all add: prev_day_def)

lemma add_seconds_valid:
  assumes "add_seconds dt n = Inr dt'"
    and "1 \<le> month dt" and "month dt \<le> 12" and "1 \<le> day dt"
    and "day dt \<le> days_in_month (year dt) (month dt)"
  shows "1 \<le> year dt' \<and> year dt' \<le> 9999 \<and> 1 \<le> month dt' \<and> month dt' \<le> 12 \<and> 1 \<le> day dt'
         \<and> day dt' \<le> days_in_month (year dt') (month dt') \<and> hour dt' < 24 \<and> minute dt' < 60
         \<and> second dt' < 60 \<and> microsecond dt' = microsecond dt"
proof -
  define total where "total = int (hour dt * 3600 + minute dt * 60 + second dt) + n"
  define secs where "secs = nat (total mod 86400)"
  define d where "d = (if 0 \<le> total div 86400 then (next_day ^^ nat (total div 86400)) dt
                       else (prev_day ^^ nat (- (total div 86400))) dt)"
  have md: "1 \<le> month dt \<and> month dt \<le> 12 \<and> 1 \<le> day dt
            \<and> day dt \<le> days_in_month (year dt) (month dt)"
    using assms(2-5) by simp
  have d_md: "1 \<le> month d \<and> month d \<le> 12 \<and> 1 \<le> day d
              \<and> day d \<le> days_in_month (year d) (month d)"
    unfolding d_def using next_days_month_day [OF md] prev_days_month_day [OF md] by simp
  have us: "microsecond d = microsecond dt"
    by (simp add: d_def next_day_microsecond prev_day_microsecond)
  have "secs < 86400" by (simp add: secs_def nat_less_iff)
  then have t: "secs div 3600 < 24" "secs mod 3600 div 60 < 60" "secs mod 60 < 60"
    by simp_all
  have eq: "add_seconds dt n =
      (if 1 \<le> year d \<and> year d \<le> 9999
       then Inr (d\<lparr>hour := secs div 3600, minute := secs mod 3600 div 60,
                   second := secs mod 60\<rparr>)
       else Inl OverflowError)"
    unfolding add_seconds_def Let_def d_def secs_def total_def by (rule refl)
  have res: "1 \<le> year d \<and> year d \<le> 9999"
  proof (rule ccontr)
    assume "\<not> (1 \<le> year d \<and> year d \<le> 9999)"
    then have "add_seconds dt n = Inl OverflowError" unfolding eq by (rule if_not_P)
    with assms(1) show False by simp
  qed
  then have "add_seconds dt n = Inr (d\<lparr>hour := secs div 3600, minute := secs mod 3600 div 60,
                   second := secs mod 60\<rparr>)"
    unfolding eq by (rule if_P)
  with assms(1) have dt': "dt' = d\<lparr>hour := secs div 3600, minute := secs mod 3600 div 60,
                      second := secs mod 60\<rparr>"
    by simp
  show ?thesis using res d_md us t by (simp add: dt')
qed

lemma add_seconds_within_day:
  assumes "1 \<le> year d" and "year d \<le> 9999" and "0 \<le> n" and "n < 86400"
  shows "add_seconds (combine d) n =
           Inr \<lparr>year = year d, month = month d, day = day d, hour = nat n div 3600,
                minute = nat n mod 3600 div 60, second = nat n mod 60, microsecond = 0\<rparr>"
proof -
  have "n div 86400 = 0" "n mod 86400 = n" using assms(3,4) by simp_all
  then show ?thesis
    using assms(1,2) by (simp add: add_seconds_def combine_def Let_def)
qed

section \<open>SlotBuilder\<close>

lemma sequence_Inr_iff: "sequence xs = Inr vs \<longleftrightarrow> xs = map Inr vs"
proof (induction xs arbitrary: vs)
  case Nil
  show ?case by auto
next
  case (Cons x xs)
  show ?case
  proof (cases x)
    case (Inl e)
    then show ?thesis by (cases vs) auto
  next
    case (Inr v)
    show ?thesis
    proof (cases "sequence xs")
      case (Inl e)
      then have "xs \<noteq> map Inr ws" for ws using Cons.IH [of ws] by auto
      with Inl Inr show ?thesis by (cases vs) auto
    next
      case seq: (Inr ws)
      then have "xs = map Inr ws" using Cons.IH by simp
      with seq Inr show ?thesis by (cases vs) auto
    qed
  qed
qed

lemma types_and_slots_map:
  "types_and_slots venues =
     sequence (map (\<lambda>(v, d, s, slot). make_slot v d s slot) (slot_specifications venues))"
  by (simp add: types_and_slots_def slot_specifications_def map_concat comp_def
      case_prod_unfold)

lemma absolute_start_within_day:
  assumes "valid_date d" and "0 \<le> offset" and "offset < 86400"
  shows "absolute_start d offset =
           Inr (strftime \<lparr>year = year d, month = month d, day = day d,
                  hour = nat offset div 3600, minute = nat offset mod 3600 div 60,
                  second = nat offset mod 60, microsecond = 0\<rparr>)"
  using assms by (simp add: absolute_start_def add_seconds_within_day valid_date_def)

lemma absolute_start_eq:
  assumes "add_seconds (combine d) offset = Inr dt"
  shows "absolute_start d offset = Inr (strftime dt)"
  using assms by (simp add: absolute_start_def)

lemma to_datetime_absolute_start:
  assumes "valid_date d" and "add_seconds (combine d) offset = Inr dt" and "1000 \<le> year dt"
  shows "to_datetime (strftime dt) = Inr (dt\<lparr>second := 0\<rparr>)"
proof -
  have v: "1 \<le> year dt \<and> year dt \<le> 9999 \<and> 1 \<le> month dt \<and> month dt \<le> 12 \<and> 1 \<le> day dt
         \<and> day dt \<le> days_in_month (year dt) (month dt) \<and> hour dt < 24 \<and> minute dt < 60
         \<and> second dt < 60 \<and> microsecond dt = microsecond (combine d)"
    using assms(1) by (intro add_seconds_valid [OF assms(2)]) (simp_all add: combine_def valid_date_def)
  then have "to_datetime (strftime dt) =
           Inr \<lparr>year = year dt, month = month dt, day = day dt, hour = hour dt,
                minute = minute dt, second = 0, microsecond = 0\<rparr>"
    using assms(3) by (intro to_datetime_strftime) simp_all
  moreover have "microsecond dt = 0" using v by (simp add: combine_def)
  ultimately show "to_datetime (strftime dt) = Inr (dt\<lparr>second := 0\<rparr>)" by simp
qed

lemma add_seconds_year_range:
  assumes "add_seconds dt n = Inr dt'"
  shows "1 \<le> year dt' \<and> year dt' \<le> 9999"
proof -
  define total where "total = int (hour dt * 3600 + minute dt * 60 + second dt) + n"
  define secs where "secs = nat (total mod 86400)"
  define d where "d = (if 0 \<le> total div 86400 then (next_day ^^ nat (total div 86400)) dt
                       else (prev_day ^^ nat (- (total div 86400))) dt)"
  have eq: "add_seconds dt n =
      (if 1 \<le> year d \<and> year d \<le> 9999
       then Inr (d\<lparr>hour := secs div 3600, minute := secs mod 3600 div 60,
                   second := secs mod 60\<rparr>)
       else Inl OverflowError)"
    unfolding add_seconds_def Let_def d_def secs_def total_def by (rule refl)
  have res: "1 \<le> year d \<and> year d \<le> 9999"
  proof (rule ccontr)
    assume "\<not> (1 \<le> year d \<and> year d \<le> 9999)"
    then have "add_seconds dt n = Inl OverflowError" unfolding eq by (rule if_not_P)
    with assms show False by simp
  qed
  then have "add_seconds dt n = Inr (d\<lparr>hour := secs div 3600, minute := secs mod 3600 div 60,
                   second := secs mod 60\<rparr>)"
    unfolding eq by (rule if_P)
  with assms have "dt' = d\<lparr>hour := secs div 3600, minute := secs mod 3600 div 60,
                      second := secs mod 60\<rparr>"
    by simp
  with res show ?thesis by simp
qed

lemma minute_precision:
  assumes "0 \<le> n"
  shows "int (nat n div 3600 * 3600 + nat n mod 3600 div 60 * 60) = n - n mod 60"
proof -
  define k where "k = nat n"
  define h r m s where "h = k div 3600" and "r = k mod 3600" and "m = r div 60" and "s = r mod 60"
  have n: "n = int k" using assms by (simp add: k_def)
  have "s = k mod 60" unfolding s_def r_def by (simp add: mod_mod_cancel)
  then have s: "int s = n mod 60" unfolding n by (simp add: zmod_int)
  have k: "k = h * 3600 + r" unfolding h_def r_def by simp
  have r: "r = m * 60 + s" unfolding m_def s_def by simp
  have "int (h * 3600 + m * 60) = int k - int s" using k r by simp
  then have "int (h * 3600 + m * 60) = n - n mod 60" unfolding s n .
  then show ?thesis unfolding h_def m_def r_def k_def .
qed

lemma all_Inr_map:
  assumes "\<forall>x \<in> set xs. \<exists>r. f x = Inr r"
  shows "\<exists>out. map f xs = map Inr out"
  using assms
proof (induction xs)
  case Nil
  show ?case by simp
next
  case (Cons x xs)
  then obtain r where r: "f x = Inr r" by auto
  from Cons obtain out where "map f xs = map Inr out" by auto
  with r have "map f (x # xs) = map Inr (r # out)" by simp
  then show ?case by blast
qed

lemma example_slot:
  "types_and_slots
     [(''Hall A'',
       [(\<lparr>year = 2017, month = 10, day = 26\<rparr>,
         [(''AM'', [\<lparr>spec_event_type = ''talk'', spec_starts_at = 32400, spec_duration = 30,
                     spec_capacity = 100\<rparr>])])])] =
   Inr [(''talk'', \<lparr>venue = ''Hall A'', starts_at = ''26-Oct-2017 09:00'', slot_duration = 30,
                    capacity = 100, session = ''2017-10-26 AM''\<rparr>)]"
  by (simp add: types_and_slots_def make_slot_def absolute_start_def add_seconds_def combine_def
      strftime_def isoformat_def pad2_def pad4_def decimal.simps digit_def month_abbr_def)

lemma example_slot_year_999:
  "types_and_slots
     [(''Hall A'',
       [(\<lparr>year = 999, month = 3, day = 4\<rparr>,
         [(''AM'', [\<lparr>spec_event_type = ''talk'', spec_starts_at = 3600, spec_duration = 30,
                     spec_capacity = 100\<rparr>])])])] =
   Inr [(''talk'', \<lparr>venue = ''Hall A'', starts_at = ''04-Mar-999 01:00'', slot_duration = 30,
                    capacity = 100, session = ''0999-03-04 AM''\<rparr>)]"
  by (simp add: types_and_slots_def make_slot_def absolute_start_def add_seconds_def combine_def
      strftime_def isoformat_def pad2_def pad4_def decimal.simps digit_def month_abbr_def)

text \<open>
  C5 as stated does not hold for a day before the year 1000: the year of the start is written
  without padding, so the start is not of the form DD-Mon-YYYY HH:MM. For day 0999-03-04 and
  offset 3600 the start is \<^verbatim>\<open>04-Mar-999 01:00\<close>, sixteen characters with a year of
  three digits, while the session label is \<^verbatim>\<open>0999-03-04 AM\<close>.
\<close>

theorem types_and_slots_short_year:
  "types_and_slots
     [(''Hall A'',
       [(\<lparr>year = 999, month = 3, day = 4\<rparr>,
         [(''AM'', [\<lparr>spec_event_type = ''talk'', spec_starts_at = 3600, spec_duration = 30,
                     spec_capacity = 100\<rparr>])])])] =
   Inr [(''talk'', \<lparr>venue = ''Hall A'', starts_at = ''04-Mar-999 01:00'', slot_duration = 30,
                    capacity = 100, session = ''0999-03-04 AM''\<rparr>)]
   \<and> length ''04-Mar-999 01:00'' = 16
   \<and> ''04-Mar-999 01:00'' \<noteq> ''04-Mar-0999 01:00''"
  by (simp add: example_slot_year_999)

text \<open>
  C5, amended. Whenever \<^verbatim>\<open>types_and_slots\<close> returns, it returns one (event-type, Slot)
  pair for every slot specification, in the order venue, day, session, slot: the pair at
  position \<open>i\<close> is built from the \<open>i\<close>-th specification in that order. The pair holds
  the specification's event type and a Slot with the venue, the duration and the capacity;
  its start is midnight of the day plus the offset in seconds, written to the minute as
  two-digit day, month name, the year in decimal without padding, blank, two-digit hour,
  colon, two-digit minute; the year lies between 1 and 9999 and from the year 1000 on it has
  four digits, so that the start has the form DD-Mon-YYYY HH:MM. The session label is the day
  in ISO format, a blank and the session name. The function returns whenever all days are
  dates and all offsets lie within a day. For day 2017-10-26, offset 32400 and session AM the
  start is \<^verbatim>\<open>26-Oct-2017 09:00\<close> and the label is \<^verbatim>\<open>2017-10-26 AM\<close>.
\<close>

theorem types_and_slots_items:
  "(\<forall>out. types_and_slots venues = Inr out \<longrightarrow>
      length out = length (slot_specifications venues) \<and>
      (\<forall>i<length out. \<exists>v d s slot dt.
          slot_specifications venues ! i = (v, d, s, slot) \<and>
          add_seconds (combine d) (spec_starts_at slot) = Inr dt \<and>
          out ! i =
            (spec_event_type slot,
             \<lparr>venue = v,
              starts_at = pad2 (day dt) @ ''-'' @ month_abbr (month dt) @ ''-'' @
                          decimal (year dt) @ '' '' @ pad2 (hour dt) @ '':'' @
                          pad2 (minute dt),
              slot_duration = spec_duration slot, capacity = spec_capacity slot,
              session = isoformat d @ '' '' @ s\<rparr>) \<and>
          1 \<le> year dt \<and> year dt \<le> 9999 \<and>
          (1000 \<le> year dt \<longrightarrow> decimal (year dt) = pad4 (year dt))))
   \<and> ((\<forall>(v, d, s, slot) \<in> set (slot_specifications venues).
          valid_date d \<and> 0 \<le> spec_starts_at slot \<and> spec_starts_at slot < 86400) \<longrightarrow>
        (\<exists>out. types_and_slots venues = Inr out))
   \<and> types_and_slots
       [(''Hall A'',
         [(\<lparr>year = 2017, month = 10, day = 26\<rparr>,
           [(''AM'', [\<lparr>spec_event_type = ''talk'', spec_starts_at = 32400, spec_duration = 30,
                       spec_capacity = 100\<rparr>])])])] =
     Inr [(''talk'', \<lparr>venue = ''Hall A'', starts_at = ''26-Oct-2017 09:00'',
                      slot_duration = 30, capacity = 100, session = ''2017-10-26 AM''\<rparr>)]"
proof (intro conjI allI impI)
  let ?make = "\<lambda>(v, d, s, slot). make_slot v d s slot"
  let ?specs = "slot_specifications venues"
  fix out
  assume "types_and_slots venues = Inr out"
  then have eq: "map ?make ?specs = map Inr out"
    by (simp add: types_and_slots_map sequence_Inr_iff)
  then have "length (map ?make ?specs) = length (map Inr out)" by simp
  then show len: "length out = length ?specs" by simp
  fix i
  assume i: "i < length out"
  obtain v d s slot where spec: "?specs ! i = (v, d, s, slot)" by (cases "?specs ! i")
  have "map ?make ?specs ! i = map Inr out ! i" using eq by simp
  then have made: "make_slot v d s slot = Inr (out ! i)" using i len spec by simp
  then obtain start where start: "absolute_start d (spec_starts_at slot) = Inr start"
    by (cases "absolute_start d (spec_starts_at slot)") (simp_all add: make_slot_def)
  then obtain dt where dt: "add_seconds (combine d) (spec_starts_at slot) = Inr dt"
    and "start = strftime dt"
    by (cases "add_seconds (combine d) (spec_starts_at slot)") (auto simp: absolute_start_def)
  with made start have item: "out ! i =
      (spec_event_type slot,
       \<lparr>venue = v,
        starts_at = pad2 (day dt) @ ''-'' @ month_abbr (month dt) @ ''-'' @
                    decimal (year dt) @ '' '' @ pad2 (hour dt) @ '':'' @ pad2 (minute dt),
        slot_duration = spec_duration slot, capacity = spec_capacity slot,
        session = isoformat d @ '' '' @ s\<rparr>)"
    by (simp add: make_slot_def strftime_def)
  have yr: "1 \<le> year dt \<and> year dt \<le> 9999" using dt by (rule add_seconds_year_range)
  then have four: "1000 \<le> year dt \<longrightarrow> decimal (year dt) = pad4 (year dt)"
    by (simp add: decimal_four_digits)
  from spec dt item yr four show "\<exists>v d s slot dt.
          ?specs ! i = (v, d, s, slot) \<and>
          add_seconds (combine d) (spec_starts_at slot) = Inr dt \<and>
          out ! i =
            (spec_event_type slot,
             \<lparr>venue = v,
              starts_at = pad2 (day dt) @ ''-'' @ month_abbr (month dt) @ ''-'' @
                          decimal (year dt) @ '' '' @ pad2 (hour dt) @ '':'' @
                          pad2 (minute dt),
              slot_duration = spec_duration slot, capacity = spec_capacity slot,
              session = isoformat d @ '' '' @ s\<rparr>) \<and>
          1 \<le> year dt \<and> year dt \<le> 9999 \<and>
          (1000 \<le> year dt \<longrightarrow> decimal (year dt) = pad4 (year dt))"
    by blast
next
  let ?make = "\<lambda>(v, d, s, slot). make_slot v d s slot"
  let ?specs = "slot_specifications venues"
  assume ok: "\<forall>(v, d, s, slot) \<in> set ?specs.
          valid_date d \<and> 0 \<le> spec_starts_at slot \<and> spec_starts_at slot < 86400"
  have "\<exists>r. ?make x = Inr r" if "x \<in> set ?specs" for x
  proof -
    obtain v d s slot where x: "x = (v, d, s, slot)" by (cases x)
    with ok that have "valid_date d" "0 \<le> spec_starts_at slot" "spec_starts_at slot < 86400"
      by auto
    then show ?thesis
      by (simp add: x make_slot_def absolute_start_within_day)
  qed
  then have "\<exists>out. map ?make ?specs = map Inr out"
    by (intro all_Inr_map) blast
  then show "\<exists>out. types_and_slots venues = Inr out"
    by (simp add: types_and_slots_map sequence_Inr_iff)
next
  show "types_and_slots
       [(''Hall A'',
         [(\<lparr>year = 2017, month = 10, day = 26\<rparr>,
           [(''AM'', [\<lparr>spec_event_type = ''talk'', spec_starts_at = 32400, spec_duration = 30,
                       spec_capacity = 100\<rparr>])])])] =
     Inr [(''talk'', \<lparr>venue = ''Hall A'', starts_at = ''26-Oct-2017 09:00'',
                      slot_duration = 30, capacity = 100, session = ''2017-10-26 AM''\<rparr>)]"
    by (rule example_slot)
qed

theorem types_and_slots_items_witness:
  "types_and_slots
     [(''Hall A'',
       [(\<lparr>year = 2017, month = 10, day = 26\<rparr>,
         [(''AM'', [\<lparr>spec_event_type = ''talk'', spec_starts_at = 32400, spec_duration = 30,
                     spec_capacity = 100\<rparr>])])])] =
     Inr [(''talk'', \<lparr>venue = ''Hall A'', starts_at = ''26-Oct-2017 09:00'',
                      slot_duration = 30, capacity = 100, session = ''2017-10-26 AM''\<rparr>)]
   \<and> length (slot_specifications
     [(''Hall A'',
       [(\<lparr>year = 2017, month = 10, day = 26\<rparr>,
         [(''AM'', [\<lparr>spec_event_type = ''talk'', spec_starts_at = 32400, spec_duration = 30,
                     spec_capacity = 100\<rparr>])])])]) = 1"
proof -
  let ?V = "[(''Hall A'',
       [(\<lparr>year = 2017, month = 10, day = 26\<rparr>,
         [(''AM'', [\<lparr>spec_event_type = ''talk'', spec_starts_at = 32400, spec_duration = 30,
                     spec_capacity = 100\<rparr>])])])]"
  let ?out = "[(''talk'', \<lparr>venue = ''Hall A'', starts_at = ''26-Oct-2017 09:00'',
                      slot_duration = 30, capacity = 100, session = ''2017-10-26 AM''\<rparr>)]"
  have within: "\<forall>(v, d, s, slot) \<in> set (slot_specifications ?V).
          valid_date d \<and> 0 \<le> spec_starts_at slot \<and> spec_starts_at slot < 86400"
    by (simp add: slot_specifications_def valid_date_def days_in_month_def)
  with types_and_slots_items [of ?V] obtain out where out: "types_and_slots ?V = Inr out"
    by blast
  with types_and_slots_items [of ?V] have len: "length out = length (slot_specifications ?V)"
    by blast
  have "out = ?out" using out by (simp add: example_slot)
  with out len show ?thesis by simp
qed

text \<open>
  C6 as stated does not hold for a day before the year 1000. The year is formatted without
  padding and \<^verbatim>\<open>%Y\<close> parses four digits only: for the date 0999-03-04 and offset 3600
  the start is \<^verbatim>\<open>04-Mar-999 01:00\<close>, and \<^verbatim>\<open>to_datetime\<close> raises ValueError on it.
\<close>

theorem timestamp_roundtrip_short_year:
  "valid_date \<lparr>year = 999, month = 3, day = 4\<rparr>
   \<and> absolute_start \<lparr>year = 999, month = 3, day = 4\<rparr> 3600 = Inr ''04-Mar-999 01:00''
   \<and> to_datetime ''04-Mar-999 01:00'' = Inl ValueError"
proof -
  have "valid_date \<lparr>year = 999, month = 3, day = 4\<rparr>"
    by (simp add: valid_date_def days_in_month_def)
  moreover have "absolute_start \<lparr>year = 999, month = 3, day = 4\<rparr> 3600 =
      Inr ''04-Mar-999 01:00''"
    by (simp add: absolute_start_def add_seconds_def combine_def strftime_def pad2_def
        decimal.simps digit_def month_abbr_def)
  moreover have "to_datetime ''04-Mar-999 01:00'' = Inl ValueError"
    by (simp add: to_datetime_def strptime_matches_def re_d_def two_digits_def one_digit_def
        lit_def re_b_def a_month_def to_lower_def re_Y_def is_digit_def digit_val_def)
  ultimately show ?thesis by simp
qed

text \<open>
  C6, amended. For a slot specification on a day \<open>d\<close> in a year from 1000 on, with an
  offset within the day (from 0 up to, not including, 86400 seconds), the start that
  \<^verbatim>\<open>types_and_slots\<close> formats is parsed back by \<^verbatim>\<open>to_datetime\<close> to the day
  \<open>d\<close>, with the hour and the minute of the offset and no seconds: to the minute, the day
  and the offset are recovered. For any offset for which midnight plus the offset lies in
  a year from 1000 to 9999, the parsed value is that sum with its seconds dropped.
\<close>

theorem timestamp_roundtrip:
  assumes "valid_date d"
  shows "(0 \<le> offset \<and> offset < 86400 \<and> 1000 \<le> year d \<longrightarrow>
            (\<exists>s r. absolute_start d offset = Inr s \<and> to_datetime s = Inr r
               \<and> r = \<lparr>year = year d, month = month d, day = day d,
                       hour = nat offset div 3600, minute = nat offset mod 3600 div 60,
                       second = 0, microsecond = 0\<rparr>
               \<and> int (hour r * 3600 + minute r * 60) = offset - offset mod 60))
         \<and> (\<forall>dt. add_seconds (combine d) offset = Inr dt \<and> 1000 \<le> year dt \<longrightarrow>
               (\<exists>s. absolute_start d offset = Inr s
                  \<and> to_datetime s = Inr (dt\<lparr>second := 0\<rparr>)))"
proof (intro conjI allI impI)
  assume a: "0 \<le> offset \<and> offset < 86400 \<and> 1000 \<le> year d"
  let ?dt = "\<lparr>year = year d, month = month d, day = day d,
                  hour = nat offset div 3600, minute = nat offset mod 3600 div 60,
                  second = nat offset mod 60, microsecond = 0\<rparr>"
  have add: "add_seconds (combine d) offset = Inr ?dt"
    using assms a by (intro add_seconds_within_day) (simp_all add: valid_date_def)
  have "absolute_start d offset = Inr (strftime ?dt)"
    using add by (rule absolute_start_eq)
  moreover have "to_datetime (strftime ?dt) = Inr (?dt\<lparr>second := 0\<rparr>)"
    using a by (intro to_datetime_absolute_start [OF assms add]) simp
  moreover have "int (nat offset div 3600 * 3600 + nat offset mod 3600 div 60 * 60) =
      offset - offset mod 60"
    using a by (intro minute_precision) simp
  ultimately show "\<exists>s r. absolute_start d offset = Inr s \<and> to_datetime s = Inr r
               \<and> r = \<lparr>year = year d, month = month d, day = day d,
                       hour = nat offset div 3600, minute = nat offset mod 3600 div 60,
                       second = 0, microsecond = 0\<rparr>
               \<and> int (hour r * 3600 + minute r * 60) = offset - offset mod 60"
    by simp
next
  fix dt
  assume "add_seconds (combine d) offset = Inr dt \<and> 1000 \<le> year dt"
  then have add: "add_seconds (combine d) offset = Inr dt" and yr: "1000 \<le> year dt"
    by simp_all
  from absolute_start_eq [OF add] to_datetime_absolute_start [OF assms add yr]
  show "\<exists>s. absolute_start d offset = Inr s \<and> to_datetime s = Inr (dt\<lparr>second := 0\<rparr>)"
    by blast
qed

theorem timestamp_roundtrip_witness:
  "absolute_start \<lparr>year = 2017, month = 10, day = 26\<rparr> 32430 = Inr ''26-Oct-2017 09:00''
   \<and> to_datetime ''26-Oct-2017 09:00'' =
       Inr \<lparr>year = 2017, month = 10, day = 26, hour = 9, minute = 0, second = 0,
            microsecond = 0\<rparr>"
proof -
  let ?d = "\<lparr>year = 2017, month = 10, day = 26\<rparr>"
  have v: "valid_date ?d" by (simp add: valid_date_def days_in_month_def)
  have s: "absolute_start ?d 32430 = Inr ''26-Oct-2017 09:00''"
    by (simp add: absolute_start_def add_seconds_def combine_def strftime_def pad2_def
        decimal.simps digit_def month_abbr_def)
  from timestamp_roundtrip [OF v, of 32430] obtain s' where
    "absolute_start ?d 32430 = Inr s'"
    "to_datetime s' = Inr \<lparr>year = year ?d, month = month ?d, day = day ?d,
                       hour = nat 32430 div 3600, minute = nat 32430 mod 3600 div 60,
                       second = 0, microsecond = 0\<rparr>"
    by auto
  with s show ?thesis by simp
qed

section \<open>UnavailabilityResolver\<close>

lemma sequence_Inr_set:
  assumes "sequence xs = Inr vs"
  shows "v \<in> set vs \<longleftrightarrow> Inr v \<in> set xs"
proof -
  have "xs = map Inr vs" using assms by (simp add: sequence_Inr_iff)
  then show ?thesis by auto
qed

lemma sequence_all_Inr:
  assumes "\<forall>x \<in> set xs. \<exists>r. x = Inr r"
  shows "\<exists>vs. sequence xs = Inr vs"
proof -
  have "\<exists>vs. map (\<lambda>x. x) xs = map Inr vs" using assms by (intro all_Inr_map) simp
  then show ?thesis by (simp add: sequence_Inr_iff)
qed

lemma sequence_Inr_all:
  assumes "sequence xs = Inr vs" and "x \<in> set xs"
  shows "\<exists>r. x = Inr r"
proof -
  have "xs = map Inr vs" using assms(1) by (simp add: sequence_Inr_iff)
  with assms(2) show ?thesis by auto
qed

lemma slot_in_period_True:
  "slot_in_period period slot = Inr True \<longleftrightarrow>
     (\<exists>start end. to_datetime (starts_at slot) = Inr start
        \<and> add_seconds start (slot_duration slot * 60) = Inr end
        \<and> datetime_le (unavailable_from period) start
        \<and> datetime_le end (unavailable_until period))"
  by (auto simp: slot_in_period_def split: sum.splits)

lemma slot_in_period_total:
  assumes "to_datetime (starts_at slot) = Inr start"
    and "add_seconds start (slot_duration slot * 60) = Inr end"
  shows "\<exists>b. slot_in_period period slot = Inr b"
  using assms by (auto simp: slot_in_period_def)

lemma select_slot_member:
  "(\<exists>part. select_slot slots period slot = Inr part \<and> k \<in> set part) \<longleftrightarrow>
     slot_in_period period slot = Inr True \<and> k = index slots slot"
  by (auto simp: select_slot_def split: sum.splits)

lemma unavailable_slots_member:
  assumes "unavailable_slots slots periods = Inr l"
  shows "k \<in> set l \<longleftrightarrow>
     (\<exists>period \<in> set periods. \<exists>slot \<in> set slots.
         slot_in_period period slot = Inr True \<and> k = index slots slot)"
proof -
  let ?gen = "[select_slot slots period slot. period \<leftarrow> periods, slot \<leftarrow> slots]"
  obtain parts where parts: "sequence ?gen = Inr parts" and l: "l = concat parts"
    using assms by (auto simp: unavailable_slots_def split: sum.splits)
  have gen: "set ?gen =
      {select_slot slots period slot | period slot. period \<in> set periods \<and> slot \<in> set slots}"
    by auto
  have "k \<in> set l \<longleftrightarrow> (\<exists>part. Inr part \<in> set ?gen \<and> k \<in> set part)"
    unfolding l using sequence_Inr_set [OF parts] by auto
  also have "\<dots> \<longleftrightarrow> (\<exists>period \<in> set periods. \<exists>slot \<in> set slots.
       \<exists>part. select_slot slots period slot = Inr part \<and> k \<in> set part)"
    unfolding gen by (simp add: eq_commute [of "Inr _"]) blast
  also have "\<dots> \<longleftrightarrow> (\<exists>period \<in> set periods. \<exists>slot \<in> set slots.
         slot_in_period period slot = Inr True \<and> k = index slots slot)"
    unfolding select_slot_member ..
  finally show ?thesis .
qed

lemma unavailable_slots_total:
  assumes "\<forall>slot \<in> set slots. \<exists>start end. to_datetime (starts_at slot) = Inr start
              \<and> add_seconds start (slot_duration slot * 60) = Inr end"
  shows "\<exists>l. unavailable_slots slots periods = Inr l"
proof -
  let ?gen = "[select_slot slots period slot. period \<leftarrow> periods, slot \<leftarrow> slots]"
  have "\<exists>r. x = Inr r" if "x \<in> set ?gen" for x
  proof -
    from that obtain period slot where "slot \<in> set slots"
      and x: "x = select_slot slots period slot" by auto
    with assms obtain b where "slot_in_period period slot = Inr b"
      using slot_in_period_total by blast
    then show ?thesis by (simp add: x select_slot_def)
  qed
  then obtain parts where "sequence ?gen = Inr parts"
    using sequence_all_Inr [of ?gen] by blast
  then show ?thesis by (simp add: unavailable_slots_def)
qed

lemma unavailability_item_Inr:
  "unavailability_item evs slots periods event = Inr (k, l) \<longleftrightarrow>
     unavailable_slots slots periods = Inr l \<and> k = index evs event"
  by (cases "unavailable_slots slots periods") (auto simp: unavailability_item_def)

lemma unavailability_items:
  assumes "unavailability evs slots ud = Inr m"
  shows "\<exists>items. m = dict_comprehension items
           \<and> (\<forall>k l. (k, l) \<in> set items \<longleftrightarrow>
                 (\<exists>periods event. (person event, periods) \<in> set ud \<and> event \<in> set evs
                    \<and> unavailable_slots slots periods = Inr l \<and> k = index evs event))"
proof -
  let ?gen = "[unavailability_item evs slots periods event.
                (p, periods) \<leftarrow> ud, event \<leftarrow> evs, person event = p]"
  obtain items where items: "sequence ?gen = Inr items" and m: "m = dict_comprehension items"
    using assms by (auto simp: unavailability_def split: sum.splits)
  have gen: "set ?gen =
      {unavailability_item evs slots periods event | periods event.
         (person event, periods) \<in> set ud \<and> event \<in> set evs}"
    by auto
  have "(k, l) \<in> set items \<longleftrightarrow>
          (\<exists>periods event. (person event, periods) \<in> set ud \<and> event \<in> set evs
             \<and> unavailable_slots slots periods = Inr l \<and> k = index evs event)" for k l
  proof -
    have "(k, l) \<in> set items \<longleftrightarrow> Inr (k, l) \<in> set ?gen"
      by (rule sequence_Inr_set [OF items])
    also have "\<dots> \<longleftrightarrow> (\<exists>periods event. (person event, periods) \<in> set ud \<and> event \<in> set evs
             \<and> unavailability_item evs slots periods event = Inr (k, l))"
      unfolding gen by (simp add: eq_commute [of "Inr _"]) blast
    also have "\<dots> \<longleftrightarrow> (\<exists>periods event. (person event, periods) \<in> set ud \<and> event \<in> set evs
             \<and> unavailable_slots slots periods = Inr l \<and> k = index evs event)"
      unfolding unavailability_item_Inr ..
    finally show ?thesis .
  qed
  with m show ?thesis by blast
qed

lemma unavailability_total:
  assumes "\<forall>slot \<in> set slots. \<exists>start end. to_datetime (starts_at slot) = Inr start
              \<and> add_seconds start (slot_duration slot * 60) = Inr end"
  shows "\<exists>m. unavailability evs slots ud = Inr m"
proof -
  let ?gen = "[unavailability_item evs slots periods event.
                (p, periods) \<leftarrow> ud, event \<leftarrow> evs, person event = p]"
  have "\<exists>r. x = Inr r" if "x \<in> set ?gen" for x
  proof -
    from that obtain periods event where x: "x = unavailability_item evs slots periods event"
      by auto
    obtain l where "unavailable_slots slots periods = Inr l"
      using unavailable_slots_total [OF assms] by blast
    then show ?thesis by (simp add: x unavailability_item_def)
  qed
  then obtain items where "sequence ?gen = Inr items"
    using sequence_all_Inr [of ?gen] by blast
  then show ?thesis by (simp add: unavailability_def)
qed

lemma unavailability_defined:
  assumes "unavailability evs slots ud = Inr m"
    and "(person event, periods) \<in> set ud" and "event \<in> set evs"
  shows "\<exists>l. unavailable_slots slots periods = Inr l"
proof -
  let ?gen = "[unavailability_item evs slots periods event.
                (p, periods) \<leftarrow> ud, event \<leftarrow> evs, person event = p]"
  obtain items where items: "sequence ?gen = Inr items"
    using assms(1) by (auto simp: unavailability_def split: sum.splits)
  have "unavailability_item evs slots periods event \<in> set ?gen"
    using assms(2,3) by auto
  then obtain r where "unavailability_item evs slots periods event = Inr r"
    using sequence_Inr_all [OF items] by blast
  then show ?thesis
    by (cases "unavailable_slots slots periods") (simp_all add: unavailability_item_def)
qed

lemma unavailability_entry:
  assumes "distinct (map fst ud)" and "event \<in> set evs"
    and "unavailability evs slots ud = Inr m"
    and "map_of ud (person event) = Some periods"
  shows "\<exists>l. unavailable_slots slots periods = Inr l \<and> map_of m (index evs event) = Some l"
proof -
  have mem: "(person event, periods) \<in> set ud" using assms(4) by (rule map_of_SomeD)
  obtain l where l: "unavailable_slots slots periods = Inr l"
    using unavailability_defined [OF assms(3) mem assms(2)] by blast
  obtain items where m: "m = dict_comprehension items"
    and items: "\<And>k l. (k, l) \<in> set items \<longleftrightarrow>
                 (\<exists>periods event. (person event, periods) \<in> set ud \<and> event \<in> set evs
                    \<and> unavailable_slots slots periods = Inr l \<and> k = index evs event)"
    using unavailability_items [OF assms(3)] by blast
  have "map_of (dict_comprehension items) (index evs event) = Some l"
  proof (rule dict_comprehension_Some)
    show "(index evs event, l) \<in> set items"
      unfolding items using mem assms(2) l by blast
    fix l'
    assume "(index evs event, l') \<in> set items"
    then obtain periods' event' where e': "(person event', periods') \<in> set ud"
      "event' \<in> set evs" "unavailable_slots slots periods' = Inr l'"
      "index evs event = index evs event'"
      unfolding items by blast
    have "event = event'" using assms(2) e'(4) by (rule index_inj)
    then have "periods' = periods"
      using assms(1) mem e'(1) by (metis map_of_is_SomeI option.inject)
    with e'(3) l show "l' = l" by simp
  qed
  with l m show ?thesis by simp
qed

lemma unavailability_no_entry:
  assumes "event \<in> set evs" and "unavailability evs slots ud = Inr m"
    and "person event \<notin> fst ` set ud"
  shows "map_of m (index evs event) = None"
proof -
  obtain items where m: "m = dict_comprehension items"
    and items: "\<And>k l. (k, l) \<in> set items \<longleftrightarrow>
                 (\<exists>periods event. (person event, periods) \<in> set ud \<and> event \<in> set evs
                    \<and> unavailable_slots slots periods = Inr l \<and> k = index evs event)"
    using unavailability_items [OF assms(2)] by blast
  have "index evs event \<notin> fst ` set items"
  proof
    assume "index evs event \<in> fst ` set items"
    then obtain l where "(index evs event, l) \<in> set items" by force
    then obtain periods' event' where e': "(person event', periods') \<in> set ud"
      "event' \<in> set evs" "index evs event = index evs event'"
      unfolding items by blast
    have "event = event'" using assms(1) e'(3) by (rule index_inj)
    with e'(1) have "person event \<in> fst ` set ud" by force
    with assms(3) show False by simp
  qed
  then show ?thesis unfolding m by (rule dict_comprehension_None)
qed

lemma to_datetime_0900:
  "to_datetime ''26-Oct-2017 09:00'' =
     Inr \<lparr>year = 2017, month = 10, day = 26, hour = 9, minute = 0, second = 0,
          microsecond = 0\<rparr>"
proof -
  let ?dt = "\<lparr>year = 2017, month = 10, day = 26, hour = 9, minute = 0, second = 0,
          microsecond = 0\<rparr>"
  have "strftime ?dt = ''26-Oct-2017 09:00''"
    by (simp add: strftime_def pad2_def decimal.simps digit_def month_abbr_def)
  moreover have "to_datetime (strftime ?dt) = Inr ?dt"
    using to_datetime_strftime [of ?dt] by (simp add: days_in_month_def)
  ultimately show ?thesis by simp
qed

lemma to_datetime_0945:
  "to_datetime ''26-Oct-2017 09:45'' =
     Inr \<lparr>year = 2017, month = 10, day = 26, hour = 9, minute = 45, second = 0,
          microsecond = 0\<rparr>"
proof -
  let ?dt = "\<lparr>year = 2017, month = 10, day = 26, hour = 9, minute = 45, second = 0,
          microsecond = 0\<rparr>"
  have "strftime ?dt = ''26-Oct-2017 09:45''"
    by (simp add: strftime_def pad2_def decimal.simps digit_def month_abbr_def)
  moreover have "to_datetime (strftime ?dt) = Inr ?dt"
    using to_datetime_strftime [of ?dt] by (simp add: days_in_month_def)
  ultimately show ?thesis by simp
qed

lemma example_unavailability:
  "unavailability
     [\<lparr>title = ''A'', duration = 30, tags = [], person = ''alice'', event_type = ''talk''\<rparr>]
     [\<lparr>venue = ''Hall A'', starts_at = ''26-Oct-2017 09:00'', slot_duration = 30,
       capacity = 100, session = ''2017-10-26 AM''\<rparr>,
      \<lparr>venue = ''Hall A'', starts_at = ''26-Oct-2017 09:45'', slot_duration = 30,
       capacity = 100, session = ''2017-10-26 AM''\<rparr>]
     [(''alice'',
       [\<lparr>unavailable_from =
           \<lparr>year = 2017, month = 10, day = 26, hour = 9, minute = 0, second = 0,
            microsecond = 0\<rparr>,
         unavailable_until =
           \<lparr>year = 2017, month = 10, day = 26, hour = 10, minute = 0, second = 0,
            microsecond = 0\<rparr>\<rparr>])] =
   Inr [(0, [0])]"
  by (simp add: unavailability_def unavailability_item_def unavailable_slots_def
      select_slot_def slot_in_period_def to_datetime_0900 to_datetime_0945 add_seconds_def
      datetime_le_def dict_comprehension_def)

lemma index_positions:
  assumes "distinct xs"
  shows "(\<exists>x \<in> set xs. k = index xs x \<and> P x) \<longleftrightarrow> k < length xs \<and> P (xs ! k)"
proof
  assume "\<exists>x \<in> set xs. k = index xs x \<and> P x"
  then obtain x where x: "x \<in> set xs" "k = index xs x" "P x" by blast
  from x(1) have "index xs x < length xs" "xs ! index xs x = x"
    by (rule index_less, rule index_nth)
  with x show "k < length xs \<and> P (xs ! k)" by simp
next
  assume k: "k < length xs \<and> P (xs ! k)"
  then have "\<forall>i<k. xs ! i \<noteq> xs ! k"
    using assms by (auto simp: nth_eq_iff_index_eq)
  with k have "index xs (xs ! k) = k" by (intro index_first_occurrence) simp_all
  with k show "\<exists>x \<in> set xs. k = index xs x \<and> P x" by (intro bexI [of _ "xs ! k"]) simp_all
qed

text \<open>
  What \<^verbatim>\<open>unavailability\<close> computes. A Python dict has no repeated key. Whenever
  the function returns a map:
  for an event whose owner has declared periods, the map has an entry under the event's
  index, and an index is in that entry if and only if it is the index (as
  \<^verbatim>\<open>slots.index\<close> finds it) of a slot and there is a period of the owner with
  \<open>unavailable_from \<le> start\<close> and \<open>start + duration \<le> unavailable_until\<close>, where
  \<open>start\<close> is the parsed start of the slot and the duration is in minutes; both bounds are
  inclusive and the indices of all the periods are gathered in the one entry. When the slots
  are pairwise different the index of a slot is its position, and the entry holds exactly the
  positions of the slots that lie within a period. For an event
  whose owner is absent from the unavailability mapping the map has no entry under the
  event's index. The function returns a map whenever the start of every slot parses and the
  end of every slot is within the calendar.
\<close>

theorem unavailability_exact:
  assumes "distinct (map fst unavailability_definition)" and "event \<in> set events_definition"
  shows "(\<forall>m. unavailability events_definition slots unavailability_definition = Inr m \<longrightarrow>
            (case map_of unavailability_definition (person event) of
               None \<Rightarrow> map_of m (index events_definition event) = None
             | Some periods \<Rightarrow>
                 (\<exists>l. map_of m (index events_definition event) = Some l
                    \<and> (\<forall>k. k \<in> set l \<longleftrightarrow>
                          (\<exists>period \<in> set periods. \<exists>slot \<in> set slots.
                             k = index slots slot
                             \<and> (\<exists>start end.
                                  to_datetime (starts_at slot) = Inr start
                                  \<and> add_seconds start (slot_duration slot * 60) = Inr end
                                  \<and> datetime_le (unavailable_from period) start
                                  \<and> datetime_le end (unavailable_until period))))
                    \<and> (distinct slots \<longrightarrow>
                         (\<forall>k. k \<in> set l \<longleftrightarrow>
                            k < length slots
                            \<and> (\<exists>period \<in> set periods. \<exists>start end.
                                  to_datetime (starts_at (slots ! k)) = Inr start
                                  \<and> add_seconds start (slot_duration (slots ! k) * 60) = Inr end
                                  \<and> datetime_le (unavailable_from period) start
                                  \<and> datetime_le end (unavailable_until period)))))))
         \<and> ((\<forall>slot \<in> set slots. \<exists>start end.
                 to_datetime (starts_at slot) = Inr start
                 \<and> add_seconds start (slot_duration slot * 60) = Inr end) \<longrightarrow>
              (\<exists>m. unavailability events_definition slots unavailability_definition = Inr m))"
proof (intro conjI allI impI)
  fix m
  assume m: "unavailability events_definition slots unavailability_definition = Inr m"
  show "case map_of unavailability_definition (person event) of
               None \<Rightarrow> map_of m (index events_definition event) = None
             | Some periods \<Rightarrow>
                 (\<exists>l. map_of m (index events_definition event) = Some l
                    \<and> (\<forall>k. k \<in> set l \<longleftrightarrow>
                          (\<exists>period \<in> set periods. \<exists>slot \<in> set slots.
                             k = index slots slot
                             \<and> (\<exists>start end.
                                  to_datetime (starts_at slot) = Inr start
                                  \<and> add_seconds start (slot_duration slot * 60) = Inr end
                                  \<and> datetime_le (unavailable_from period) start
                                  \<and> datetime_le end (unavailable_until period))))
                    \<and> (distinct slots \<longrightarrow>
                         (\<forall>k. k \<in> set l \<longleftrightarrow>
                            k < length slots
                            \<and> (\<exists>period \<in> set periods. \<exists>start end.
                                  to_datetime (starts_at (slots ! k)) = Inr start
                                  \<and> add_seconds start (slot_duration (slots ! k) * 60) = Inr end
                                  \<and> datetime_le (unavailable_from period) start
                                  \<and> datetime_le end (unavailable_until period)))))"
  proof (cases "map_of unavailability_definition (person event)")
    case None
    then have "person event \<notin> fst ` set unavailability_definition"
      by (simp add: map_of_eq_None_iff)
    with assms(2) m have "map_of m (index events_definition event) = None"
      by (rule unavailability_no_entry)
    with None show ?thesis by simp
  next
    case (Some periods)
    obtain l where l: "unavailable_slots slots periods = Inr l"
      and entry: "map_of m (index events_definition event) = Some l"
      using unavailability_entry [OF assms m Some] by blast
    define W :: "Slot \<Rightarrow> bool" where "W = (\<lambda>slot. \<exists>period \<in> set periods. \<exists>start end.
                    to_datetime (starts_at slot) = Inr start
                    \<and> add_seconds start (slot_duration slot * 60) = Inr end
                    \<and> datetime_le (unavailable_from period) start
                    \<and> datetime_le end (unavailable_until period))"
    have by_value: "k \<in> set l \<longleftrightarrow> (\<exists>slot \<in> set slots. k = index slots slot \<and> W slot)" for k
      unfolding unavailable_slots_member [OF l] slot_in_period_True W_def by blast
    have first: "\<forall>k. k \<in> set l \<longleftrightarrow>
            (\<exists>period \<in> set periods. \<exists>slot \<in> set slots.
               k = index slots slot
               \<and> (\<exists>start end.
                    to_datetime (starts_at slot) = Inr start
                    \<and> add_seconds start (slot_duration slot * 60) = Inr end
                    \<and> datetime_le (unavailable_from period) start
                    \<and> datetime_le end (unavailable_until period)))"
      unfolding by_value W_def by blast
    have "\<forall>k. k \<in> set l \<longleftrightarrow> k < length slots \<and> W (slots ! k)" if "distinct slots"
      unfolding by_value using index_positions [OF that] by blast
    then have second: "distinct slots \<longrightarrow>
        (\<forall>k. k \<in> set l \<longleftrightarrow>
            k < length slots
            \<and> (\<exists>period \<in> set periods. \<exists>start end.
                  to_datetime (starts_at (slots ! k)) = Inr start
                  \<and> add_seconds start (slot_duration (slots ! k) * 60) = Inr end
                  \<and> datetime_le (unavailable_from period) start
                  \<and> datetime_le end (unavailable_until period)))"
      unfolding W_def by blast
    have "\<exists>l. map_of m (index events_definition event) = Some l
        \<and> (\<forall>k. k \<in> set l \<longleftrightarrow>
            (\<exists>period \<in> set periods. \<exists>slot \<in> set slots.
               k = index slots slot
               \<and> (\<exists>start end.
                    to_datetime (starts_at slot) = Inr start
                    \<and> add_seconds start (slot_duration slot * 60) = Inr end
                    \<and> datetime_le (unavailable_from period) start
                    \<and> datetime_le end (unavailable_until period))))
        \<and> (distinct slots \<longrightarrow>
            (\<forall>k. k \<in> set l \<longleftrightarrow>
                k < length slots
                \<and> (\<exists>period \<in> set periods. \<exists>start end.
                      to_datetime (starts_at (slots ! k)) = Inr start
                      \<and> add_seconds start (slot_duration (slots ! k) * 60) = Inr end
                      \<and> datetime_le (unavailable_from period) start
                      \<and> datetime_le end (unavailable_until period))))"
      using entry first second by (intro exI [of _ l] conjI)
    then show ?thesis unfolding Some option.case .
  qed
next
  assume "\<forall>slot \<in> set slots. \<exists>start end.
                 to_datetime (starts_at slot) = Inr start
                 \<and> add_seconds start (slot_duration slot * 60) = Inr end"
  then show "\<exists>m. unavailability events_definition slots unavailability_definition = Inr m"
    by (rule unavailability_total)
qed

theorem unavailability_exact_witness:
  "unavailability
     [\<lparr>title = ''A'', duration = 30, tags = [], person = ''alice'', event_type = ''talk''\<rparr>]
     [\<lparr>venue = ''Hall A'', starts_at = ''26-Oct-2017 09:00'', slot_duration = 30,
       capacity = 100, session = ''2017-10-26 AM''\<rparr>,
      \<lparr>venue = ''Hall A'', starts_at = ''26-Oct-2017 09:45'', slot_duration = 30,
       capacity = 100, session = ''2017-10-26 AM''\<rparr>]
     [(''alice'',
       [\<lparr>unavailable_from =
           \<lparr>year = 2017, month = 10, day = 26, hour = 9, minute = 0, second = 0,
            microsecond = 0\<rparr>,
         unavailable_until =
           \<lparr>year = 2017, month = 10, day = 26, hour = 10, minute = 0, second = 0,
            microsecond = 0\<rparr>\<rparr>])] =
   Inr [(0, [0])]
   \<and> (\<exists>l. map_of [(0 :: nat, [0 :: nat])] 0 = Some l \<and> 0 \<in> set l \<and> 1 \<notin> set l)"
proof -
  let ?e = "\<lparr>title = ''A'', duration = 30, tags = [], person = ''alice'',
             event_type = ''talk''\<rparr>"
  let ?s0 = "\<lparr>venue = ''Hall A'', starts_at = ''26-Oct-2017 09:00'', slot_duration = 30,
       capacity = 100, session = ''2017-10-26 AM''\<rparr>"
  let ?s1 = "\<lparr>venue = ''Hall A'', starts_at = ''26-Oct-2017 09:45'', slot_duration = 30,
       capacity = 100, session = ''2017-10-26 AM''\<rparr>"
  let ?p = "\<lparr>unavailable_from =
           \<lparr>year = 2017, month = 10, day = 26, hour = 9, minute = 0, second = 0,
            microsecond = 0\<rparr>,
         unavailable_until =
           \<lparr>year = 2017, month = 10, day = 26, hour = 10, minute = 0, second = 0,
            microsecond = 0\<rparr>\<rparr>"
  have d: "distinct (map fst [(''alice'', [?p])])" by simp
  have e: "?e \<in> set [?e]" by simp
  have m: "unavailability [?e] [?s0, ?s1] [(''alice'', [?p])] = Inr [(0, [0])]"
    by (rule example_unavailability)
  note entry = conjunct1 [OF unavailability_exact [OF d e, of "[?s0, ?s1]"], rule_format, OF m]
  from entry have "\<exists>l. map_of [(0 :: nat, [0 :: nat])] 0 = Some l" by simp
  with m show ?thesis by simp
qed

lemma example_equal_slots:
  "types_and_slots
     [(''Hall A'',
       [(\<lparr>year = 2017, month = 10, day = 26\<rparr>,
         [(''AM'', [\<lparr>spec_event_type = ''talk'', spec_starts_at = 32400, spec_duration = 30,
                     spec_capacity = 100\<rparr>,
                    \<lparr>spec_event_type = ''workshop'', spec_starts_at = 32400,
                     spec_duration = 30, spec_capacity = 100\<rparr>])])])] =
   Inr [(''talk'', \<lparr>venue = ''Hall A'', starts_at = ''26-Oct-2017 09:00'', slot_duration = 30,
                    capacity = 100, session = ''2017-10-26 AM''\<rparr>),
        (''workshop'', \<lparr>venue = ''Hall A'', starts_at = ''26-Oct-2017 09:00'',
                    slot_duration = 30, capacity = 100, session = ''2017-10-26 AM''\<rparr>)]"
  by (simp add: types_and_slots_def make_slot_def absolute_start_def add_seconds_def combine_def
      strftime_def isoformat_def pad2_def pad4_def decimal.simps digit_def month_abbr_def)

lemma example_unavailability_equal_slots:
  "unavailability
     [\<lparr>title = ''A'', duration = 30, tags = [], person = ''alice'', event_type = ''talk''\<rparr>]
     [\<lparr>venue = ''Hall A'', starts_at = ''26-Oct-2017 09:00'', slot_duration = 30,
       capacity = 100, session = ''2017-10-26 AM''\<rparr>,
      \<lparr>venue = ''Hall A'', starts_at = ''26-Oct-2017 09:00'', slot_duration = 30,
       capacity = 100, session = ''2017-10-26 AM''\<rparr>]
     [(''alice'',
       [\<lparr>unavailable_from =
           \<lparr>year = 2017, month = 10, day = 26, hour = 9, minute = 0, second = 0,
            microsecond = 0\<rparr>,
         unavailable_until =
           \<lparr>year = 2017, month = 10, day = 26, hour = 10, minute = 0, second = 0,
            microsecond = 0\<rparr>\<rparr>])] =
   Inr [(0, [0, 0])]"
  by (simp add: unavailability_def unavailability_item_def unavailable_slots_def
      select_slot_def slot_in_period_def to_datetime_0900 add_seconds_def
      datetime_le_def dict_comprehension_def)

text \<open>
  C2. The claim is what the docstring of \<^verbatim>\<open>unavailability\<close> promises: the slots an event
  must not be scheduled in are given by their index in the slot list. The code finds the
  index of a slot with \<^verbatim>\<open>slots.index(slot)\<close>, by value, so of equal slots only the
  first position is ever listed. Two slot specifications that differ in their event type
  only give two equal Slot records, at the positions 0 and 1. With alice unavailable from
  09:00 to 10:00 and both slots from 09:00 to 09:30, the entry of her event is
  \<^verbatim>\<open>[0, 0]\<close>: the slot at position 1 lies within the period and is not listed. The
  sibling \<^verbatim>\<open>unsuitability\<close> enumerates the slots and lists position 1 for an event of
  type talk.
\<close>

theorem unavailability_equal_slots:
  "types_and_slots
     [(''Hall A'',
       [(\<lparr>year = 2017, month = 10, day = 26\<rparr>,
         [(''AM'', [\<lparr>spec_event_type = ''talk'', spec_starts_at = 32400, spec_duration = 30,
                     spec_capacity = 100\<rparr>,
                    \<lparr>spec_event_type = ''workshop'', spec_starts_at = 32400,
                     spec_duration = 30, spec_capacity = 100\<rparr>])])])] =
   Inr [(''talk'', \<lparr>venue = ''Hall A'', starts_at = ''26-Oct-2017 09:00'', slot_duration = 30,
                    capacity = 100, session = ''2017-10-26 AM''\<rparr>),
        (''workshop'', \<lparr>venue = ''Hall A'', starts_at = ''26-Oct-2017 09:00'',
                    slot_duration = 30, capacity = 100, session = ''2017-10-26 AM''\<rparr>)]
   \<and> unavailability
     [\<lparr>title = ''A'', duration = 30, tags = [], person = ''alice'', event_type = ''talk''\<rparr>]
     [\<lparr>venue = ''Hall A'', starts_at = ''26-Oct-2017 09:00'', slot_duration = 30,
       capacity = 100, session = ''2017-10-26 AM''\<rparr>,
      \<lparr>venue = ''Hall A'', starts_at = ''26-Oct-2017 09:00'', slot_duration = 30,
       capacity = 100, session = ''2017-10-26 AM''\<rparr>]
     [(''alice'',
       [\<lparr>unavailable_from =
           \<lparr>year = 2017, month = 10, day = 26, hour = 9, minute = 0, second = 0,
            microsecond = 0\<rparr>,
         unavailable_until =
           \<lparr>year = 2017, month = 10, day = 26, hour = 10, minute = 0, second = 0,
            microsecond = 0\<rparr>\<rparr>])] =
   Inr [(0, [0, 0])]
   \<and> 1 \<notin> set [0 :: nat, 0]
   \<and> unsuitability
     [(''talk'', \<lparr>venue = ''Hall A'', starts_at = ''26-Oct-2017 09:00'', slot_duration = 30,
                    capacity = 100, session = ''2017-10-26 AM''\<rparr>),
      (''workshop'', \<lparr>venue = ''Hall A'', starts_at = ''26-Oct-2017 09:00'',
                    slot_duration = 30, capacity = 100, session = ''2017-10-26 AM''\<rparr>)]
     [\<lparr>title = ''A'', duration = 30, tags = [], person = ''alice'', event_type = ''talk''\<rparr>] =
     [(0, [1])]"
proof -
  have "unsuitability
     [(''talk'', \<lparr>venue = ''Hall A'', starts_at = ''26-Oct-2017 09:00'', slot_duration = 30,
                    capacity = 100, session = ''2017-10-26 AM''\<rparr>),
      (''workshop'', \<lparr>venue = ''Hall A'', starts_at = ''26-Oct-2017 09:00'',
                    slot_duration = 30, capacity = 100, session = ''2017-10-26 AM''\<rparr>)]
     [\<lparr>title = ''A'', duration = 30, tags = [], person = ''alice'', event_type = ''talk''\<rparr>] =
     [(0, [1])]"
    by (simp add: unsuitability_def unsuitable_slots_def)
  then show ?thesis
    by (simp add: example_equal_slots example_unavailability_equal_slots)
qed

section \<open>Events that occur twice in the event list\<close>

lemma fold_update_keys_of:
  "fst ` set (fold (\<lambda>x d. AList.update (k x) (v x) d) xs d0) = fst ` set d0 \<union> k ` set xs"
  by (induction xs arbitrary: d0) (auto simp: dom_update)

lemma unsuitability_keys:
  "fst ` set (unsuitability tagged_slots evs) = index evs ` set evs"
  by (simp add: unsuitability_def fold_update_keys_of)

lemma add_self_clash_keys:
  "fst ` set (fst (add_self_clash item state)) = fst ` set (fst state) \<union>
     (if fst item \<in> set (snd item) then {} else {fst item})"
  by (cases item; cases state) (simp add: dom_update)

lemma add_self_clashes_keep_keys:
  "fst ` set d \<subseteq> fst ` set (fst (fold add_self_clash items (d, n)))"
proof (induction items arbitrary: d n)
  case Nil
  show ?case by simp
next
  case (Cons item items)
  obtain d' n' where step: "add_self_clash item (d, n) = (d', n')"
    by (cases "add_self_clash item (d, n)")
  have "fst ` set d \<subseteq> fst ` set d'"
    using add_self_clash_keys [of item "(d, n)"] by (auto simp: step)
  also have "\<dots> \<subseteq> fst ` set (fst (fold add_self_clash items (d', n')))"
    by (rule Cons.IH)
  finally show ?case by (simp add: step)
qed

lemma clashes_owner_key:
  assumes "event \<in> set evs"
  shows "person event \<in> fst ` set (snd (clashes evs cd))"
proof -
  let ?cd1 = "add_missing_people (map person evs) cd"
  have "person event \<in> fst ` set ?cd1"
    using assms by (simp add: add_missing_people_keys)
  moreover have "fst ` set ?cd1 \<subseteq> fst ` set (fst (add_self_clashes ?cd1))"
    unfolding add_self_clashes_def by (rule add_self_clashes_keep_keys)
  moreover have "snd (clashes evs cd) = fst (add_self_clashes ?cd1)"
    by (simp add: clashes_def Let_def case_prod_beta)
  ultimately show ?thesis by auto
qed

lemma in_fst_imageD: "k \<in> fst ` A \<Longrightarrow> \<exists>v. (k, v) \<in> A"
  by force

lemma in_fst_imageI: "(k, v) \<in> A \<Longrightarrow> k \<in> fst ` A"
  by force

lemma clashes_keys:
  "fst ` set (fst (fst (clashes evs cd))) = index evs ` set evs"
proof -
  define items where "items = [(index evs event, clashing_events evs clashing_people event).
          (p, clashing_people) \<leftarrow> snd (clashes evs cd), event \<leftarrow> evs, person event = p]"
  have items: "(k, v) \<in> set items \<longleftrightarrow>
      (\<exists>cp event. (person event, cp) \<in> set (snd (clashes evs cd)) \<and> event \<in> set evs
          \<and> k = index evs event \<and> v = clashing_events evs cp event)" for k v
    unfolding items_def by (rule clashes_items_iff)
  have "k \<in> fst ` set items \<longleftrightarrow> k \<in> index evs ` set evs" for k
  proof
    assume "k \<in> fst ` set items"
    then obtain v where "(k, v) \<in> set items" using in_fst_imageD by fastforce
    then obtain event where "event \<in> set evs" "k = index evs event"
      unfolding items by blast
    then show "k \<in> index evs ` set evs" by blast
  next
    assume "k \<in> index evs ` set evs"
    then obtain event where event: "event \<in> set evs" "k = index evs event" by blast
    have "person event \<in> fst ` set (snd (clashes evs cd))"
      using event(1) by (rule clashes_owner_key)
    then obtain cp where "(person event, cp) \<in> set (snd (clashes evs cd))"
      using in_fst_imageD by fastforce
    with event have "(k, clashing_events evs cp event) \<in> set items"
      unfolding items by blast
    then show "k \<in> fst ` set items" by (rule in_fst_imageI)
  qed
  then have "fst ` set items = index evs ` set evs" by blast
  then show ?thesis
    unfolding clashes_dict_eq dict_comprehension_keys items_def .
qed

lemma clashes_values:
  assumes "(k, l) \<in> set (fst (fst (clashes evs cd)))"
  shows "set l \<subseteq> index evs ` set evs"
proof -
  from assms have "(k, l) \<in> set [(index evs event, clashing_events evs clashing_people event).
          (p, clashing_people) \<leftarrow> snd (clashes evs cd), event \<leftarrow> evs, person event = p]"
    unfolding clashes_dict_eq by (rule dict_comprehension_entries)
  then obtain cp event where "l = clashing_events evs cp event"
    unfolding clashes_items_iff by blast
  then show ?thesis by (auto simp: set_clashing_events)
qed

lemma unavailability_keys:
  assumes "unavailability evs slots ud = Inr m"
  shows "fst ` set m = index evs ` {event \<in> set evs. person event \<in> fst ` set ud}"
proof -
  obtain items where m: "m = dict_comprehension items"
    and items: "\<And>k l. (k, l) \<in> set items \<longleftrightarrow>
                 (\<exists>periods event. (person event, periods) \<in> set ud \<and> event \<in> set evs
                    \<and> unavailable_slots slots periods = Inr l \<and> k = index evs event)"
    using unavailability_items [OF assms] by blast
  have "k \<in> fst ` set items \<longleftrightarrow>
          k \<in> index evs ` {event \<in> set evs. person event \<in> fst ` set ud}" for k
  proof
    assume "k \<in> fst ` set items"
    then obtain l where "(k, l) \<in> set items" by force
    then obtain periods event where "(person event, periods) \<in> set ud" "event \<in> set evs"
      "k = index evs event"
      unfolding items by blast
    then show "k \<in> index evs ` {event \<in> set evs. person event \<in> fst ` set ud}" by force
  next
    assume "k \<in> index evs ` {event \<in> set evs. person event \<in> fst ` set ud}"
    then obtain event periods where e: "event \<in> set evs" "(person event, periods) \<in> set ud"
      "k = index evs event" by force
    then obtain l where "unavailable_slots slots periods = Inr l"
      using unavailability_defined [OF assms] by blast
    with e have "(k, l) \<in> set items" unfolding items by blast
    then show "k \<in> fst ` set items" by force
  qed
  then show ?thesis unfolding m dict_comprehension_keys by blast
qed

text \<open>
  C10. Let the event list hold the same event specification at the positions \<open>i < j\<close>,
  \<open>i\<close> being its first occurrence. Then value lookup gives \<open>i\<close> for both occurrences. In
  the unsuitability map, in the clash map and in any unavailability map that is returned,
  \<open>j\<close> is not a key, and no clash list contains \<open>j\<close>. The entries of both occurrences are
  the one entry under \<open>i\<close>: \<open>i\<close> is a key of the unsuitability map and of the clash map,
  and of the unavailability map exactly when the owner has an entry in the unavailability
  definitions.
\<close>

theorem duplicate_event_merged:
  assumes "i < j" and "j < length events_definition"
    and "events_definition ! i = events_definition ! j"
    and "\<forall>k<i. events_definition ! k \<noteq> events_definition ! i"
  shows "index events_definition (events_definition ! i) = i
         \<and> index events_definition (events_definition ! j) = i
         \<and> j \<notin> fst ` set (unsuitability tagged_slots events_definition)
         \<and> i \<in> fst ` set (unsuitability tagged_slots events_definition)
         \<and> j \<notin> fst ` set (fst (fst (clashes events_definition clashes_definition)))
         \<and> i \<in> fst ` set (fst (fst (clashes events_definition clashes_definition)))
         \<and> (\<forall>(k, l) \<in> set (fst (fst (clashes events_definition clashes_definition))).
               j \<notin> set l)
         \<and> (\<forall>m. unavailability events_definition slots unavailability_definition = Inr m \<longrightarrow>
               j \<notin> fst ` set m
               \<and> (i \<in> fst ` set m \<longleftrightarrow>
                    person (events_definition ! i) \<in> fst ` set unavailability_definition))"
proof -
  let ?evs = events_definition
  have i: "i < length ?evs" using assms(1,2) by simp
  have first: "index ?evs (?evs ! i) = i" using i assms(4) by (rule index_first_occurrence)
  have notj: "index ?evs x \<noteq> j" for x using assms(1-3) by (rule index_later_duplicate)
  then have nj: "j \<notin> index ?evs ` A" for A by auto
  have mem: "?evs ! i \<in> set ?evs" using i by simp
  then have "index ?evs (?evs ! i) \<in> index ?evs ` set ?evs" by (rule imageI)
  then have ii: "i \<in> index ?evs ` set ?evs" unfolding first .
  have second: "index ?evs (?evs ! j) = i" unfolding assms(3) [symmetric] by (rule first)
  have "j \<notin> set l" if "(k, l) \<in> set (fst (fst (clashes ?evs clashes_definition)))" for k l
    using clashes_values [OF that] nj by auto
  then have lists: "\<forall>(k, l) \<in> set (fst (fst (clashes ?evs clashes_definition))). j \<notin> set l"
    by auto
  have unav: "j \<notin> fst ` set m
      \<and> (i \<in> fst ` set m \<longleftrightarrow> person (?evs ! i) \<in> fst ` set unavailability_definition)"
    if m: "unavailability ?evs slots unavailability_definition = Inr m" for m
  proof -
    have "i \<in> index ?evs ` {event \<in> set ?evs. person event \<in> fst ` set unavailability_definition}
          \<longleftrightarrow> person (?evs ! i) \<in> fst ` set unavailability_definition"
    proof
      assume "i \<in> index ?evs `
                {event \<in> set ?evs. person event \<in> fst ` set unavailability_definition}"
      then obtain event where e: "event \<in> set ?evs"
        "person event \<in> fst ` set unavailability_definition" "i = index ?evs event" by auto
      from e(1) have "?evs ! index ?evs event = event" by (rule index_nth)
      then have "?evs ! i = event" unfolding e(3) .
      with e(2) show "person (?evs ! i) \<in> fst ` set unavailability_definition" by simp
    next
      assume "person (?evs ! i) \<in> fst ` set unavailability_definition"
      with mem have "?evs ! i \<in>
          {event \<in> set ?evs. person event \<in> fst ` set unavailability_definition}"
        by simp
      then have "index ?evs (?evs ! i) \<in> index ?evs `
          {event \<in> set ?evs. person event \<in> fst ` set unavailability_definition}"
        by (rule imageI)
      then show "i \<in> index ?evs `
                {event \<in> set ?evs. person event \<in> fst ` set unavailability_definition}"
        unfolding first .
    qed
    moreover have "j \<notin> index ?evs `
          {event \<in> set ?evs. person event \<in> fst ` set unavailability_definition}"
      by (rule nj)
    ultimately show ?thesis unfolding unavailability_keys [OF m] by (rule conjI [rotated])
  qed
  have unav_all: "\<forall>m. unavailability ?evs slots unavailability_definition = Inr m \<longrightarrow>
               j \<notin> fst ` set m
               \<and> (i \<in> fst ` set m \<longleftrightarrow>
                    person (?evs ! i) \<in> fst ` set unavailability_definition)"
    using unav by blast
  have u1: "j \<notin> fst ` set (unsuitability tagged_slots ?evs)"
    unfolding unsuitability_keys by (rule nj)
  have u2: "i \<in> fst ` set (unsuitability tagged_slots ?evs)"
    unfolding unsuitability_keys by (rule ii)
  have c1: "j \<notin> fst ` set (fst (fst (clashes ?evs clashes_definition)))"
    unfolding clashes_keys by (rule nj)
  have c2: "i \<in> fst ` set (fst (fst (clashes ?evs clashes_definition)))"
    unfolding clashes_keys by (rule ii)
  show ?thesis
    by (intro conjI) (fact first second u1 u2 c1 c2 lists unav_all)+
qed

theorem duplicate_event_merged_witness:
  "index [\<lparr>title = ''A'', duration = 30, tags = [], person = ''alice'', event_type = ''talk''\<rparr>,
          \<lparr>title = ''A'', duration = 30, tags = [], person = ''alice'', event_type = ''talk''\<rparr>]
     \<lparr>title = ''A'', duration = 30, tags = [], person = ''alice'', event_type = ''talk''\<rparr> = 0
   \<and> fst ` set (unsuitability [(''talk'', ()), (''workshop'', ())]
       [\<lparr>title = ''A'', duration = 30, tags = [], person = ''alice'', event_type = ''talk''\<rparr>,
        \<lparr>title = ''A'', duration = 30, tags = [], person = ''alice'', event_type = ''talk''\<rparr>])
       = {0}
   \<and> fst (clashes
       [\<lparr>title = ''A'', duration = 30, tags = [], person = ''alice'', event_type = ''talk''\<rparr>,
        \<lparr>title = ''A'', duration = 30, tags = [], person = ''alice'', event_type = ''talk''\<rparr>]
       []) = ([(0, [])], 0)"
proof -
  let ?a = "\<lparr>title = ''A'', duration = 30, tags = [], person = ''alice'',
             event_type = ''talk''\<rparr>"
  have h: "(0::nat) < 1" "1 < length [?a, ?a]" "[?a, ?a] ! 0 = [?a, ?a] ! 1"
    "\<forall>k<0::nat. [?a, ?a] ! k \<noteq> [?a, ?a] ! 0"
    by simp_all
  note w = duplicate_event_merged [OF h, of "[(''talk'', ()), (''workshop'', ())]" "[]"]
  have "index [?a, ?a] ([?a, ?a] ! 0) = 0" by (rule conjunct1 [OF w])
  then have "index [?a, ?a] ?a = 0" by simp
  moreover have "fst ` set (unsuitability [(''talk'', ()), (''workshop'', ())] [?a, ?a]) = {0}"
    by (simp add: unsuitability_def)
  moreover have "fst (clashes [?a, ?a] []) = ([(0, [])], 0)"
    by (simp add: clashes_def add_missing_people_def add_self_clashes_def
        dict_comprehension_def clashing_events_def)
  ultimately show ?thesis by simp
qed

end
